theory Spec2Isabelle
  imports Complex_Main "HOL-Library.AList" "HOL-Library.Sublist"
begin

section \<open>Values and dictionaries\<close>

text \<open>
  The extractor handles untyped data: what \<open>json.load\<close> and \<open>configparser\<close> return.
  A Python dict is an association list in insertion order; Python's \<open>None\<close> is \<open>JNull\<close>.
  A dict never holds a key twice, so the association lists that stand for inputs have
  distinct keys. Numbers are never computed with, only copied and tested for zero. A
  \<open>char\<close> stands for one character of a Python string.
\<close>

datatype json =
    JNull
  | JBool bool
  | JInt int
  | JFloat real
  | JStr string
  | JList "json list"
  | JDict "(string \<times> json) list"

type_synonym dict = "(string \<times> json) list"

text \<open>
  The exceptions that the untyped accesses of the source can raise. \<open>OutsideModel\<close> marks
  the one Python behaviour that is not modelled: \<open>dict.update\<close> given a non-empty list,
  which Python reads as a sequence of key/value pairs.
\<close>

datatype error =
  TypeError | AttributeError | ValueError | KeyError | IndexError | OSError | OutsideModel

text \<open>\<open>d.update(other)\<close> for a dict \<open>other\<close>: in the order of \<open>other\<close>.\<close>

definition dict_update :: "dict \<Rightarrow> dict \<Rightarrow> dict" where
  "dict_update d other = fold (\<lambda>(k, v) acc. AList.update k v acc) other d"

text \<open>\<open>d.update(x)\<close> for an arbitrary value \<open>x\<close>.\<close>

fun py_update :: "dict \<Rightarrow> json \<Rightarrow> error + dict" where
  "py_update d (JDict other) = Inr (dict_update d other)"
| "py_update d (JStr s) = (if s = [] then Inr d else Inl ValueError)"
| "py_update d (JList xs) = (if xs = [] then Inr d else Inl OutsideModel)"
| "py_update d JNull = Inl TypeError"
| "py_update d (JBool b) = Inl TypeError"
| "py_update d (JInt i) = Inl TypeError"
| "py_update d (JFloat x) = Inl TypeError"

text \<open>Python truthiness, as \<open>or\<close>, \<open>if\<close> and \<open>while\<close> test it.\<close>

fun truthy :: "json \<Rightarrow> bool" where
  "truthy JNull = False"
| "truthy (JBool b) = b"
| "truthy (JInt i) = (i \<noteq> 0)"
| "truthy (JFloat x) = (x \<noteq> 0)"
| "truthy (JStr s) = (s \<noteq> [])"
| "truthy (JList xs) = (xs \<noteq> [])"
| "truthy (JDict kvs) = (kvs \<noteq> [])"

text \<open>\<open>d.get(k)\<close>: the value, or \<open>None\<close>.\<close>

definition py_get :: "dict \<Rightarrow> string \<Rightarrow> json" where
  "py_get d k = (case map_of d k of None \<Rightarrow> JNull | Some v \<Rightarrow> v)"

section \<open>Definition Tree Walker: \<open>extract_settings_from_def\<close>\<close>

type_synonym setting_map = "(string \<times> dict) list"

definition props :: "string list" where
  "props = [''default_value'', ''value'', ''type'', ''description'', ''unit'',
            ''minimum_value'', ''maximum_value'', ''enabled'', ''settable_per_mesh'',
            ''settable_per_extruder'', ''options'']"

text \<open>The loop \<open>for prop in [...]: if prop in node: setting_info[prop] = node[prop]\<close>.\<close>

definition setting_info :: "dict \<Rightarrow> dict" where
  "setting_info node =
     fold (\<lambda>prop info. case map_of node prop of None \<Rightarrow> info
                                               | Some v \<Rightarrow> AList.update prop v info)
          props []"

text \<open>The second half of \<open>recurse\<close>, for a node that is a dict.\<close>

definition extract_node :: "dict \<Rightarrow> string \<Rightarrow> setting_map \<Rightarrow> setting_map" where
  "extract_node node path st =
     (case map_of node ''type'' of
        None \<Rightarrow> st
      | Some t \<Rightarrow>
          if t \<noteq> JStr ''category''
          then (if setting_info node \<noteq> [] then AList.update path (setting_info node) st else st)
          else st)"

lemma size_map_of:
  "map_of kvs k = Some v \<Longrightarrow> size v < Suc (size_list (size_prod (\<lambda>_. 0) size) kvs)"
  by (induction kvs) (auto split: if_splits)

text \<open>
  \<open>recurse(node, path)\<close> with the accumulator \<open>settings\<close> passed through. The source
  annotates \<open>node\<close> as a dict; on a string \<open>"children" in node\<close> is a substring test and
  on a list a membership test, and the subscript that follows raises; on any other value
  the \<open>in\<close> itself raises. \<open>recurse_children\<close> is the loop over \<open>.items()\<close>.
\<close>

function recurse :: "json \<Rightarrow> string \<Rightarrow> setting_map \<Rightarrow> error + setting_map"
  and recurse_children :: "(string \<times> json) list \<Rightarrow> setting_map \<Rightarrow> error + setting_map"
where
  "recurse (JDict node) path st =
     (case (case map_of node ''children'' of
              None \<Rightarrow> Inr st
            | Some (JDict children) \<Rightarrow> recurse_children children st
            | Some _ \<Rightarrow> Inl AttributeError) of
        Inl e \<Rightarrow> Inl e
      | Inr st' \<Rightarrow> Inr (extract_node node path st'))"
| "recurse (JStr s) path st =
     (if sublist ''children'' s \<or> sublist ''type'' s then Inl TypeError else Inr st)"
| "recurse (JList xs) path st =
     (if JStr ''children'' \<in> set xs \<or> JStr ''type'' \<in> set xs then Inl TypeError else Inr st)"
| "recurse JNull path st = Inl TypeError"
| "recurse (JBool b) path st = Inl TypeError"
| "recurse (JInt i) path st = Inl TypeError"
| "recurse (JFloat x) path st = Inl TypeError"
| "recurse_children [] st = Inr st"
| "recurse_children ((key, child) # rest) st =
     (case recurse child key st of
        Inl e \<Rightarrow> Inl e
      | Inr st' \<Rightarrow> recurse_children rest st')"
  by pat_completeness auto
termination
  by (relation "measure (\<lambda>x. case x of
        Inl (node, _, _) \<Rightarrow> size node
      | Inr (kvs, _) \<Rightarrow> Suc (size_list (size_prod (\<lambda>_. 0) size) kvs))")
     (auto dest: size_map_of)

text \<open>
  The loop over \<open>def_data["overrides"].items()\<close>; \<open>src\<close> is
  \<open>def_data.get("_filename", "unknown")\<close>.
\<close>

fun apply_overrides :: "json \<Rightarrow> (string \<times> json) list \<Rightarrow> setting_map \<Rightarrow> error + setting_map" where
  "apply_overrides src [] st = Inr st"
| "apply_overrides src ((key, override) # rest) st =
     (case py_update (case map_of st key of None \<Rightarrow> [] | Some e \<Rightarrow> e) override of
        Inl e \<Rightarrow> Inl e
      | Inr entry \<Rightarrow>
          apply_overrides src rest (AList.update key (AList.update ''_source'' src entry) st))"

definition extract_settings_tree :: "dict \<Rightarrow> error + setting_map" where
  "extract_settings_tree def_data =
     (case map_of def_data ''settings'' of
        None \<Rightarrow> Inr []
      | Some (JDict categories) \<Rightarrow> recurse_children categories []
      | Some _ \<Rightarrow> Inl AttributeError)"

definition extract_settings_from_def :: "dict \<Rightarrow> error + setting_map" where
  "extract_settings_from_def def_data =
     (case extract_settings_tree def_data of
        Inl e \<Rightarrow> Inl e
      | Inr st \<Rightarrow>
          (case map_of def_data ''overrides'' of
             None \<Rightarrow> Inr st
           | Some (JDict overrides) \<Rightarrow>
               apply_overrides
                 (case map_of def_data ''_filename'' of None \<Rightarrow> JStr ''unknown'' | Some f \<Rightarrow> f)
                 overrides st
           | Some _ \<Rightarrow> Inl AttributeError))"

section \<open>Structured Document Reader: \<open>parse_cfg_file\<close>, \<open>parse_def_json\<close>\<close>

text \<open>
  What the file system and the two library parsers answer for a path.

  For \<open>json\<close>: \<open>NoStat\<close> when \<open>filepath.exists()\<close> raises \<open>OSError\<close>, as \<open>Path.exists\<close>
  does when \<open>stat\<close> fails for another reason than a missing path component (a name that
  is too long, a directory that may not be searched); \<open>NoFile\<close> when
  \<open>filepath.exists()\<close> is false; \<open>BadFile msg\<close> when the file
  exists and \<open>open\<close>, \<open>json.load\<close> or \<open>result.update(data)\<close> raises an exception \<open>e\<close> with
  \<open>str(e) = msg\<close> (unreadable, undecodable, not JSON, or JSON whose top level is a scalar);
  \<open>JsonFile data\<close> when the file holds the JSON object \<open>data\<close>. A top-level JSON array or
  string that \<open>dict.update\<close> accepts as a sequence of pairs is not modelled. The paths of
  definition files are built from identifiers that documents declare, so any string can
  be probed.

  For \<open>configparser\<close>, whose paths are entries that a directory enumeration has yielded:
  \<open>NoCfg\<close> when \<open>filepath.exists()\<close> is false; \<open>CfgUnopenable\<close> when
  the file exists and \<open>open\<close> raises \<open>OSError\<close>, which \<open>ConfigParser.read\<close> swallows ("files
  that cannot be opened are silently ignored"), leaving a parser without sections;
  \<open>CfgBad msg\<close> when decoding or parsing raises an exception with text \<open>msg\<close>;
  \<open>CfgFile secs\<close> when parsing succeeds, \<open>secs\<close> listing \<open>config.sections()\<close> with
  \<open>dict(config[section])\<close> for each.
\<close>

datatype json_file = NoStat | NoFile | BadFile string | JsonFile dict

datatype cfg_file =
  NoCfg | CfgUnopenable | CfgBad string | CfgFile "(string \<times> (string \<times> string) list) list"

text \<open>
  The environment of a run. A \<open>Path\<close> is its string; \<open>path_name\<close> and \<open>path_stem\<close> are
  \<open>.name\<close> and \<open>.stem\<close>; \<open>def_path current_def\<close> is
  \<open>definitions_dir / f"{current_def}.def.json"\<close>; the three lists are what \<open>glob\<close> yields,
  in the order it yields them (\<open>quality_changes_glob\<close> is \<open>None\<close> when the directory does
  not exist); \<open>instance_name f\<close> is \<open>unquote(f.stem.replace(".global", ""))\<close>.
\<close>

record env =
  json_files :: "string \<Rightarrow> json_file"
  cfg_files :: "string \<Rightarrow> cfg_file"
  path_name :: "string \<Rightarrow> string"
  path_stem :: "string \<Rightarrow> string"
  def_path :: "json \<Rightarrow> string"
  machine_instances_glob :: "string list"
  instance_name :: "string \<Rightarrow> string"
  definition_changes_glob :: "string list"
  quality_changes_glob :: "string list option"

definition new_result :: "env \<Rightarrow> string \<Rightarrow> dict" where
  "new_result e filepath =
     [(''_filepath'', JStr filepath), (''_filename'', JStr (path_name e filepath))]"

definition section_dict :: "(string \<times> string) list \<Rightarrow> json" where
  "section_dict options = JDict (map (\<lambda>(k, v). (k, JStr v)) options)"

definition parse_cfg_file :: "env \<Rightarrow> string \<Rightarrow> dict" where
  "parse_cfg_file e filepath =
     (case cfg_files e filepath of
        NoCfg \<Rightarrow> AList.update ''_error'' (JStr ''File not found'') (new_result e filepath)
      | CfgUnopenable \<Rightarrow> new_result e filepath
      | CfgBad msg \<Rightarrow> AList.update ''_error'' (JStr msg) (new_result e filepath)
      | CfgFile secs \<Rightarrow>
          fold (\<lambda>(s, options) result. AList.update s (section_dict options) result)
               secs (new_result e filepath))"

text \<open>
  \<open>filepath.exists()\<close> stands before the \<open>try\<close>: what it raises leaves the function.
\<close>

definition parse_def_json :: "env \<Rightarrow> string \<Rightarrow> error + dict" where
  "parse_def_json e filepath =
     (case json_files e filepath of
        NoStat \<Rightarrow> Inl OSError
      | NoFile \<Rightarrow> Inr (AList.update ''_error'' (JStr ''File not found'') (new_result e filepath))
      | BadFile msg \<Rightarrow> Inr (AList.update ''_error'' (JStr msg) (new_result e filepath))
      | JsonFile data \<Rightarrow> Inr (dict_update (new_result e filepath) data))"

text \<open>\<open>d.get(k, {})\<close> followed by a method call that only a dict has.\<close>

definition get_dict :: "dict \<Rightarrow> string \<Rightarrow> error + dict" where
  "get_dict d k =
     (case map_of d k of
        None \<Rightarrow> Inr []
      | Some (JDict sub) \<Rightarrow> Inr sub
      | Some _ \<Rightarrow> Inl AttributeError)"

section \<open>Inheritance Chain Resolver: the \<open>while\<close> loop of \<open>_extract_machine\<close>\<close>

text \<open>One entry of \<open>chain\<close>: the dict with the keys \<open>name\<close>, \<open>file\<close> and \<open>inherits\<close>.\<close>

record link =
  link_name :: json
  link_file :: string
  link_inherits :: json

text \<open>
  The loop has no bound and no visited set: it is a partial function, \<open>None\<close> standing for
  a run that never leaves the loop. A run that leaves it returns the chain, or raises what
  \<open>def_path.exists()\<close> or \<open>parse_def_json\<close> raises: neither call is inside a \<open>try\<close>.
\<close>

partial_function (option) build_chain :: "env \<Rightarrow> link list \<Rightarrow> json \<Rightarrow> (error + link list) option" where
  "build_chain e chain current_def =
     (if truthy current_def
      then (case json_files e (def_path e current_def) of
              NoStat \<Rightarrow> Some (Inl OSError)
            | NoFile \<Rightarrow> Some (Inr chain)
            | _ \<Rightarrow>
                (case parse_def_json e (def_path e current_def) of
                   Inl err \<Rightarrow> Some (Inl err)
                 | Inr def_data \<Rightarrow>
                     build_chain e
                       (chain @ [\<lparr>link_name = current_def,
                                  link_file = def_path e current_def,
                                  link_inherits = py_get def_data ''inherits''\<rparr>])
                       (py_get def_data ''inherits'')))
      else Some (Inr chain))"

section \<open>Effective Settings Merger: the two \<open>for\<close> loops of \<open>_extract_machine\<close>\<close>

text \<open>\<open>entry["_sources"].append(x)\<close>.\<close>

definition append_source :: "dict \<Rightarrow> json \<Rightarrow> error + dict" where
  "append_source entry x =
     (case map_of entry ''_sources'' of
        None \<Rightarrow> Inl KeyError
      | Some (JList sources) \<Rightarrow> Inr (AList.update ''_sources'' (JList (sources @ [x])) entry)
      | Some _ \<Rightarrow> Inl AttributeError)"

text \<open>\<open>effective[key]\<close> after \<open>if key not in effective: effective[key] = {"_sources": []}\<close>.\<close>

definition entry_of :: "setting_map \<Rightarrow> string \<Rightarrow> dict" where
  "entry_of effective key =
     (case map_of effective key of None \<Rightarrow> [(''_sources'', JList [])] | Some entry \<Rightarrow> entry)"

text \<open>The inner loop \<open>for key, value in settings.items()\<close> for the layer called \<open>nm\<close>.\<close>

fun merge_settings :: "json \<Rightarrow> setting_map \<Rightarrow> setting_map \<Rightarrow> error + setting_map" where
  "merge_settings nm [] effective = Inr effective"
| "merge_settings nm ((key, value) # rest) effective =
     (case append_source (dict_update (entry_of effective key) value) nm of
        Inl e \<Rightarrow> Inl e
      | Inr entry \<Rightarrow> merge_settings nm rest (AList.update key entry effective))"

text \<open>The outer loop, over \<open>reversed(chain)\<close>.\<close>

fun merge_chain :: "env \<Rightarrow> link list \<Rightarrow> setting_map \<Rightarrow> error + setting_map" where
  "merge_chain e [] effective = Inr effective"
| "merge_chain e (def_info # rest) effective =
     (case parse_def_json e (link_file def_info) of
        Inl err \<Rightarrow> Inl err
      | Inr def_data \<Rightarrow>
          (case extract_settings_from_def def_data of
             Inl err \<Rightarrow> Inl err
           | Inr settings \<Rightarrow>
               (case merge_settings (link_name def_info) settings effective of
                  Inl err \<Rightarrow> Inl err
                | Inr effective' \<Rightarrow> merge_chain e rest effective')))"

text \<open>The loop over \<open>result["definition_changes"]["values"].items()\<close>.\<close>

fun apply_values :: "dict \<Rightarrow> setting_map \<Rightarrow> error + setting_map" where
  "apply_values [] effective = Inr effective"
| "apply_values ((key, value) # rest) effective =
     (case append_source (AList.update ''effective_value'' value (entry_of effective key))
             (JStr ''definition_changes'') of
        Inl e \<Rightarrow> Inl e
      | Inr entry \<Rightarrow> apply_values rest (AList.update key entry effective))"

text \<open>Lines 621 to 643: the effective settings of a chain and a definition-changes document.\<close>

definition merge_effective :: "env \<Rightarrow> link list \<Rightarrow> dict \<Rightarrow> error + setting_map" where
  "merge_effective e chain def_changes =
     (case merge_chain e (rev chain) [] of
        Inl err \<Rightarrow> Inl err
      | Inr effective \<Rightarrow>
          (case map_of def_changes ''values'' of
             None \<Rightarrow> Inr effective
           | Some (JDict vals) \<Rightarrow> apply_values vals effective
           | Some _ \<Rightarrow> Inl AttributeError))"

section \<open>\<open>_extract_machine\<close>\<close>

record machine =
  inheritance_chain :: "link list"
  effective_settings :: setting_map
  definition_changes :: dict
  error_marker :: "string option"
  instance_cfg :: "dict option"
  container_stack :: "dict option"

text \<open>The loop over \<open>def_changes_dir.glob("*.inst.cfg")\<close>, up to its \<open>break\<close>.\<close>

fun find_definition_changes :: "env \<Rightarrow> string list \<Rightarrow> json \<Rightarrow> error + dict" where
  "find_definition_changes e [] settings_name = Inr []"
| "find_definition_changes e (f # fs) settings_name =
     (case get_dict (parse_cfg_file e f) ''general'' of
        Inl err \<Rightarrow> Inl err
      | Inr general \<Rightarrow>
          if (case map_of general ''name'' of None \<Rightarrow> JStr [] | Some n \<Rightarrow> n) = settings_name
          then Inr (parse_cfg_file e f)
          else find_definition_changes e fs settings_name)"

definition load_definition_changes :: "env \<Rightarrow> dict \<Rightarrow> error + dict" where
  "load_definition_changes e containers =
     (if truthy (case map_of containers ''6'' of None \<Rightarrow> JStr [] | Some s \<Rightarrow> s)
      then find_definition_changes e (definition_changes_glob e)
             (case map_of containers ''6'' of None \<Rightarrow> JStr [] | Some s \<Rightarrow> s)
      else Inr [])"

text \<open>
  The result is \<open>None\<close> when the chain loop never ends, \<open>Some (Inl err)\<close> when an exception
  leaves the function, \<open>Some (Inr result)\<close> when it returns.
\<close>

definition extract_machine :: "env \<Rightarrow> string \<Rightarrow> (error + machine) option" where
  "extract_machine e machine_name =
     (case find (\<lambda>f. instance_name e f = machine_name) (machine_instances_glob e) of
        None \<Rightarrow>
          Some (Inr \<lparr>inheritance_chain = [], effective_settings = [], definition_changes = [],
                     error_marker = Some (''Machine not found: '' @ machine_name),
                     instance_cfg = None, container_stack = None\<rparr>)
      | Some machine_file \<Rightarrow>
          (case get_dict (parse_cfg_file e machine_file) ''containers'' of
             Inl err \<Rightarrow> Some (Inl err)
           | Inr containers \<Rightarrow>
               (case load_definition_changes e containers of
                  Inl err \<Rightarrow> Some (Inl err)
                | Inr def_changes \<Rightarrow>
                    (case build_chain e []
                            (case map_of containers ''7'' of
                               None \<Rightarrow> JStr ''creality_ender3pro'' | Some b \<Rightarrow> b) of
                       None \<Rightarrow> None
                     | Some (Inl err) \<Rightarrow> Some (Inl err)
                     | Some (Inr chain) \<Rightarrow>
                         (case merge_effective e chain def_changes of
                            Inl err \<Rightarrow> Some (Inl err)
                          | Inr effective \<Rightarrow>
                              Some (Inr \<lparr>inheritance_chain = chain,
                                         effective_settings = effective,
                                         definition_changes = def_changes,
                                         error_marker = None,
                                         instance_cfg = Some (parse_cfg_file e machine_file),
                                         container_stack = Some containers\<rparr>))))))"

section \<open>Profile aggregator: \<open>_extract_custom_qualities\<close>\<close>

record profile =
  files :: "string list"
  settings :: dict
  metadata :: "json option"







section \<open>Quick reference: \<open>extract_key_settings\<close>\<close>

definition IMPORTANT_SETTINGS :: "string list" where
  "IMPORTANT_SETTINGS =
     [''layer_height'', ''layer_height_0'',
      ''wall_thickness'', ''wall_line_count'',
      ''top_layers'', ''bottom_layers'', ''top_bottom_thickness'',
      ''infill_sparse_density'', ''infill_pattern'',
      ''speed_print'', ''speed_infill'', ''speed_wall'', ''speed_wall_0'', ''speed_wall_x'',
      ''speed_topbottom'', ''speed_travel'', ''speed_layer_0'',
      ''retraction_enable'', ''retraction_amount'', ''retraction_speed'',
      ''retraction_hop_enabled'', ''retraction_hop'',
      ''material_print_temperature'', ''material_bed_temperature'',
      ''cool_fan_speed'', ''cool_fan_speed_min'', ''cool_fan_speed_max'',
      ''support_enable'', ''support_type'', ''support_structure'',
      ''adhesion_type'', ''skirt_line_count'', ''brim_width'',
      ''machine_width'', ''machine_depth'', ''machine_height'',
      ''machine_heated_bed'', ''machine_nozzle_size'']"

text \<open>\<open>a or b\<close>.\<close>

definition py_or :: "json \<Rightarrow> json \<Rightarrow> json" where
  "py_or a b = (if truthy a then a else b)"

text \<open>\<open>x[-1]\<close>.\<close>

fun py_last :: "json \<Rightarrow> error + json" where
  "py_last (JList xs) = (if xs = [] then Inl IndexError else Inr (last xs))"
| "py_last (JStr s) = (if s = [] then Inl IndexError else Inr (JStr [last s]))"
| "py_last (JDict d) = Inl KeyError"
| "py_last JNull = Inl TypeError"
| "py_last (JBool b) = Inl TypeError"
| "py_last (JInt i) = Inl TypeError"
| "py_last (JFloat x) = Inl TypeError"

text \<open>The \<open>elif\<close> branch: the entry reported for \<open>info = effective[setting]\<close>.\<close>

definition effective_report :: "dict \<Rightarrow> error + dict" where
  "effective_report info =
     (case (case map_of info ''_sources'' of
              None \<Rightarrow> Inr (JStr ''default'')
            | Some sources \<Rightarrow> py_last sources) of
        Inl err \<Rightarrow> Inl err
      | Inr src \<Rightarrow>
          Inr [(''value'', py_or (py_get info ''effective_value'')
                             (py_or (py_get info ''value'') (py_get info ''default_value''))),
               (''source'', src)])"

fun key_settings_loop :: "setting_map \<Rightarrow> dict \<Rightarrow> string list \<Rightarrow> setting_map \<Rightarrow> error + setting_map" where
  "key_settings_loop effective def_changes [] key_settings = Inr key_settings"
| "key_settings_loop effective def_changes (setting # rest) key_settings =
     (case map_of def_changes setting of
        Some v \<Rightarrow>
          key_settings_loop effective def_changes rest
            (AList.update setting [(''value'', v), (''source'', JStr ''your_customizations'')]
               key_settings)
      | None \<Rightarrow>
          (case map_of effective setting of
             None \<Rightarrow> key_settings_loop effective def_changes rest key_settings
           | Some info \<Rightarrow>
               (case effective_report info of
                  Inl err \<Rightarrow> Inl err
                | Inr entry \<Rightarrow>
                    key_settings_loop effective def_changes rest
                      (AList.update setting entry key_settings))))"

text \<open>
  \<open>extract_key_settings(data)\<close>, where \<open>data.get("machine", {})\<close> is the result of
  \<open>_extract_machine\<close>, or absent when the machine section was not requested.
\<close>

definition extract_key_settings :: "machine option \<Rightarrow> error + setting_map" where
  "extract_key_settings m =
     (case get_dict (case m of None \<Rightarrow> [] | Some r \<Rightarrow> definition_changes r) ''values'' of
        Inl err \<Rightarrow> Inl err
      | Inr def_changes \<Rightarrow>
          key_settings_loop (case m of None \<Rightarrow> [] | Some r \<Rightarrow> effective_settings r)
            def_changes IMPORTANT_SETTINGS [])"

text \<open>
  The part of \<open>extract_all\<close> that fills the quick reference when the machine section is
  selected: \<open>output["machine"] = self._extract_machine(machine_name)\<close>, then
  \<open>extract_key_settings(output)\<close>.
\<close>

definition extract_all_key_settings :: "env \<Rightarrow> string \<Rightarrow> (error + setting_map) option" where
  "extract_all_key_settings e machine_name =
     (case extract_machine e machine_name of
        None \<Rightarrow> None
      | Some (Inl err) \<Rightarrow> Some (Inl err)
      | Some (Inr m) \<Rightarrow> Some (extract_key_settings (Some m)))"

section \<open>Notions used in the statements\<close>

text \<open>
  The identifier that the loop of the resolver visits after \<open>current_def\<close>, the test that
  lets the loop take a step, and the link it appends.
\<close>

definition parent :: "env \<Rightarrow> json \<Rightarrow> json" where
  "parent e current_def =
     (case parse_def_json e (def_path e current_def) of
        Inl err \<Rightarrow> JNull
      | Inr def_data \<Rightarrow> py_get def_data ''inherits'')"

definition resolvable :: "env \<Rightarrow> json \<Rightarrow> bool" where
  "resolvable e current_def \<longleftrightarrow>
     truthy current_def \<and> json_files e (def_path e current_def) \<noteq> NoFile \<and>
     json_files e (def_path e current_def) \<noteq> NoStat"

definition link_of :: "env \<Rightarrow> json \<Rightarrow> link" where
  "link_of e current_def =
     \<lparr>link_name = current_def, link_file = def_path e current_def,
      link_inherits = parent e current_def\<rparr>"

text \<open>
  What the merger computes for one link, \<open>extract_settings_from_def(parse_def_json(...))\<close>,
  and the keys that the link's document defines.
\<close>

definition layer_settings :: "env \<Rightarrow> link \<Rightarrow> error + setting_map" where
  "layer_settings e def_info =
     (case parse_def_json e (link_file def_info) of
        Inl err \<Rightarrow> Inl err
      | Inr def_data \<Rightarrow> extract_settings_from_def def_data)"

definition layer_keys :: "env \<Rightarrow> link \<Rightarrow> string set" where
  "layer_keys e def_info =
     (case layer_settings e def_info of Inl err \<Rightarrow> {} | Inr s \<Rightarrow> fst ` set s)"

definition defining_layers :: "env \<Rightarrow> link list \<Rightarrow> string \<Rightarrow> nat" where
  "defining_layers e chain key = length (filter (\<lambda>l. key \<in> layer_keys e l) chain)"

text \<open>The override layer: the \<open>values\<close> section of the definition-changes document.\<close>

definition override_values :: "dict \<Rightarrow> dict" where
  "override_values def_changes =
     (case map_of def_changes ''values'' of Some (JDict vals) \<Rightarrow> vals | _ \<Rightarrow> [])"

text \<open>The provenance list of a key, and one field of its entry.\<close>

definition provenance :: "setting_map \<Rightarrow> string \<Rightarrow> json list" where
  "provenance effective key =
     (case map_of effective key of
        None \<Rightarrow> []
      | Some entry \<Rightarrow> (case map_of entry ''_sources'' of Some (JList ps) \<Rightarrow> ps | _ \<Rightarrow> []))"

definition field :: "setting_map \<Rightarrow> string \<Rightarrow> string \<Rightarrow> json option" where
  "field effective key f =
     (case map_of effective key of None \<Rightarrow> None | Some entry \<Rightarrow> map_of entry f)"

text \<open>
  Invariants of the loops: every entry has a provenance list (\<open>has_sources\<close>), a non-empty
  one (\<open>sourced\<close>), one that ends with the override marker (\<open>marked\<close>); every entry is a
  dict (\<open>dicts\<close>). A layer is \<open>plain\<close> when none of its settings carries a field that is
  itself called \<open>_sources\<close>.
\<close>

definition has_sources :: "setting_map \<Rightarrow> bool" where
  "has_sources effective \<longleftrightarrow>
     (\<forall>key entry. map_of effective key = Some entry \<longrightarrow>
        (\<exists>ps. map_of entry ''_sources'' = Some (JList ps)))"

definition sourced :: "setting_map \<Rightarrow> bool" where
  "sourced effective \<longleftrightarrow>
     (\<forall>key entry. map_of effective key = Some entry \<longrightarrow>
        (\<exists>ps. map_of entry ''_sources'' = Some (JList ps) \<and> ps \<noteq> []))"

definition marked :: "setting_map \<Rightarrow> string \<Rightarrow> bool" where
  "marked effective key \<longleftrightarrow>
     (\<exists>entry ps. map_of effective key = Some entry \<and>
        map_of entry ''_sources'' = Some (JList ps) \<and> ps \<noteq> [] \<and>
        last ps = JStr ''definition_changes'')"

definition dicts :: "setting_map \<Rightarrow> bool" where
  "dicts s \<longleftrightarrow> (\<forall>v \<in> snd ` set s. distinct (map fst v))"

definition plain :: "setting_map \<Rightarrow> bool" where
  "plain s \<longleftrightarrow> (\<forall>v \<in> snd ` set s. ''_sources'' \<notin> fst ` set v)"

text \<open>
  The provenance list and one field of a key in what \<open>_extract_machine\<close> returns, when it
  returns.
\<close>

definition machine_provenance :: "(error + machine) option \<Rightarrow> string \<Rightarrow> (error + json list) option" where
  "machine_provenance r key =
     (case r of
        None \<Rightarrow> None
      | Some (Inl err) \<Rightarrow> Some (Inl err)
      | Some (Inr m) \<Rightarrow> Some (Inr (provenance (effective_settings m) key)))"

definition machine_field :: "(error + machine) option \<Rightarrow> string \<Rightarrow> string \<Rightarrow> (error + json option) option" where
  "machine_field r key f =
     (case r of
        None \<Rightarrow> None
      | Some (Inl err) \<Rightarrow> Some (Inl err)
      | Some (Inr m) \<Rightarrow> Some (Inr (field (effective_settings m) key f)))"




section \<open>Example documents\<close>

definition base_name :: "string \<Rightarrow> string" where
  "base_name p = rev (takeWhile (\<lambda>c. c \<noteq> CHR ''/'') (rev p))"

definition stem :: "string \<Rightarrow> string" where
  "stem p =
     (if CHR ''.'' \<in> set (base_name p)
      then rev (tl (dropWhile (\<lambda>c. c \<noteq> CHR ''.'') (rev (base_name p))))
      else base_name p)"

definition example_def_path :: "json \<Rightarrow> string" where
  "example_def_path current_def =
     ''defs/'' @ (case current_def of JStr s \<Rightarrow> s | _ \<Rightarrow> ''?'') @ ''.def.json''"

definition example_env :: "(string \<Rightarrow> json_file) \<Rightarrow> (string \<Rightarrow> cfg_file) \<Rightarrow> string list option \<Rightarrow> env" where
  "example_env jf cf qs =
     \<lparr>json_files = jf, cfg_files = cf, path_name = base_name, path_stem = stem,
      def_path = example_def_path,
      machine_instances_glob = [''machine_instances/Ender.global.cfg''],
      instance_name = (\<lambda>f. if f = ''machine_instances/Ender.global.cfg'' then ''Ender'' else f),
      definition_changes_glob = [''definition_changes/Ender_settings.inst.cfg''],
      quality_changes_glob = qs\<rparr>"

definition fdmprinter_json :: dict where
  "fdmprinter_json =
     [(''name'', JStr ''FDM Printer''),
      (''settings'', JDict [(''resolution'', JDict [(''type'', JStr ''category''),
         (''children'', JDict [(''layer_height'', JDict [(''type'', JStr ''float''),
              (''default_value'', JFloat 0.2), (''unit'', JStr ''mm'')])])])])]"

definition creality_base_json :: dict where
  "creality_base_json =
     [(''inherits'', JStr ''fdmprinter''),
      (''overrides'', JDict [(''machine_heated_bed'', JDict [(''default_value'', JBool True)])])]"

definition creality_ender3pro_json :: dict where
  "creality_ender3pro_json =
     [(''inherits'', JStr ''creality_base''),
      (''overrides'', JDict [(''layer_height'', JDict [(''default_value'', JFloat 0.16)])])]"

definition printer_defs :: "string \<Rightarrow> json_file" where
  "printer_defs p =
     (if p = ''defs/fdmprinter.def.json'' then JsonFile fdmprinter_json
      else if p = ''defs/creality_base.def.json'' then JsonFile creality_base_json
      else if p = ''defs/creality_ender3pro.def.json'' then JsonFile creality_ender3pro_json
      else NoFile)"

definition printer_cfgs :: "string \<Rightarrow> string \<Rightarrow> cfg_file" where
  "printer_cfgs v p =
     (if p = ''machine_instances/Ender.global.cfg''
      then CfgFile [(''general'', [(''name'', ''Ender'')]),
                    (''containers'', [(''6'', ''Ender_settings''), (''7'', ''creality_ender3pro'')])]
      else if p = ''definition_changes/Ender_settings.inst.cfg''
      then CfgFile [(''general'', [(''name'', ''Ender_settings'')]),
                    (''values'', [(''layer_height'', v)])]
      else NoCfg)"

definition printer_env :: "string \<Rightarrow> env" where
  "printer_env v = example_env printer_defs (printer_cfgs v) None"

definition printer_chain :: "string \<Rightarrow> link list" where
  "printer_chain v =
     [link_of (printer_env v) (JStr ''creality_ender3pro''),
      link_of (printer_env v) (JStr ''creality_base''),
      link_of (printer_env v) (JStr ''fdmprinter'')]"

definition printer_effective :: "string \<Rightarrow> setting_map" where
  "printer_effective v =
     [(''layer_height'',
       [(''_sources'', JList [JStr ''fdmprinter'', JStr ''creality_ender3pro'',
                              JStr ''definition_changes'']),
        (''default_value'', JFloat 0.16), (''type'', JStr ''float''), (''unit'', JStr ''mm''),
        (''_source'', JStr ''creality_ender3pro.def.json''),
        (''effective_value'', JStr v)]),
      (''machine_heated_bed'',
       [(''_sources'', JList [JStr ''creality_base'']),
        (''default_value'', JBool True),
        (''_source'', JStr ''creality_base.def.json'')])]"

definition printer_changes :: "string \<Rightarrow> dict" where
  "printer_changes v =
     [(''_filepath'', JStr ''definition_changes/Ender_settings.inst.cfg''),
      (''_filename'', JStr ''Ender_settings.inst.cfg''),
      (''general'', JDict [(''name'', JStr ''Ender_settings'')]),
      (''values'', JDict [(''layer_height'', JStr v)])]"

text \<open>A child definition whose override carries a field that is itself called \<open>_sources\<close>.\<close>

definition reset_defs :: "string \<Rightarrow> json_file" where
  "reset_defs p =
     (if p = ''defs/fdmprinter.def.json'' then JsonFile fdmprinter_json
      else if p = ''defs/custom.def.json''
      then JsonFile [(''inherits'', JStr ''fdmprinter''),
                     (''overrides'', JDict [(''layer_height'',
                        JDict [(''default_value'', JFloat 0.16), (''_sources'', JList [])])])]
      else NoFile)"

definition reset_env :: env where
  "reset_env = example_env reset_defs (\<lambda>p. NoCfg) None"

definition reset_chain :: "link list" where
  "reset_chain = [link_of reset_env (JStr ''custom''), link_of reset_env (JStr ''fdmprinter'')]"

text \<open>Two definitions that inherit from each other.\<close>

definition cycle_defs :: "string \<Rightarrow> json_file" where
  "cycle_defs p =
     (if p = ''defs/A.def.json'' then JsonFile [(''inherits'', JStr ''B'')]
      else if p = ''defs/B.def.json'' then JsonFile [(''inherits'', JStr ''A'')]
      else NoFile)"

definition cycle_env :: env where
  "cycle_env = example_env cycle_defs (\<lambda>p. NoCfg) None"

text \<open>A printer definition with one setting in its tree, overridden in the same document;
  and the same document carrying a top-level \<open>_filename\<close> key of its own.\<close>

definition ender_json :: dict where
  "ender_json =
     [(''settings'', JDict [(''resolution'', JDict [(''type'', JStr ''category''),
         (''children'', JDict [(''layer_height'', JDict [(''type'', JStr ''float''),
              (''default_value'', JFloat 0.2), (''unit'', JStr ''mm'')])])])]),
      (''overrides'', JDict [(''layer_height'', JDict [(''default_value'', JFloat 0.16)])])]"

definition ender_env :: env where
  "ender_env =
     example_env (\<lambda>p. if p = ''defs/creality_ender3pro.def.json'' then JsonFile ender_json
                        else NoFile) (\<lambda>p. NoCfg) None"

definition spoof_json :: dict where
  "spoof_json = (''_filename'', JStr ''evil.json'') # ender_json"

definition spoof_env :: env where
  "spoof_env =
     example_env (\<lambda>p. if p = ''defs/own.def.json'' then JsonFile spoof_json else NoFile)
       (\<lambda>p. NoCfg) None"

text \<open>A definition that overrides a setting of its parent without giving it a default.\<close>

definition tuned_json :: dict where
  "tuned_json =
     [(''inherits'', JStr ''fdmprinter''),
      (''overrides'', JDict [(''layer_height'', JDict [(''value'', JFloat 0.1)])])]"

definition tuned_defs :: "string \<Rightarrow> json_file" where
  "tuned_defs p =
     (if p = ''defs/fdmprinter.def.json'' then JsonFile fdmprinter_json
      else if p = ''defs/tuned.def.json'' then JsonFile tuned_json
      else NoFile)"

definition tuned_env :: env where
  "tuned_env = example_env tuned_defs (\<lambda>p. NoCfg) None"

definition tuned_chain :: "link list" where
  "tuned_chain = [link_of tuned_env (JStr ''tuned''), link_of tuned_env (JStr ''fdmprinter'')]"

definition tuned_effective :: setting_map where
  "tuned_effective =
     [(''layer_height'',
       [(''_sources'', JList [JStr ''fdmprinter'', JStr ''tuned'', JStr ''definition_changes'']),
        (''default_value'', JFloat 0.2), (''type'', JStr ''float''), (''unit'', JStr ''mm''),
        (''value'', JFloat 0.1), (''_source'', JStr ''tuned.def.json''),
        (''effective_value'', JStr ''0.12'')])]"

text \<open>A printer whose definition declares a parent of 300 characters that has no document,
  on a file system that refuses to stat a path of more than 255 characters.\<close>

definition long_name :: string where
  "long_name = replicate 300 (CHR ''a'')"

definition long_parent_json :: dict where
  "long_parent_json =
     [(''inherits'', JStr long_name),
      (''overrides'', JDict [(''layer_height'', JDict [(''default_value'', JFloat 0.16)])])]"

definition long_defs :: "string \<Rightarrow> json_file" where
  "long_defs p =
     (if 255 < length p then NoStat
      else if p = ''defs/creality_ender3pro.def.json'' then JsonFile long_parent_json
      else NoFile)"

definition long_env :: env where
  "long_env = example_env long_defs (printer_cfgs ''0.12'') None"

text \<open>A machine instance file that exists and that \<open>open\<close> refuses.\<close>

definition locked_env :: env where
  "locked_env =
     example_env (\<lambda>p. NoFile)
       (\<lambda>p. if p = ''machine_instances/Ender.global.cfg'' then CfgUnopenable else NoCfg) None"

text \<open>What \<open>_extract_machine\<close> returns for the example printer.\<close>

definition printer_result :: "string \<Rightarrow> machine" where
  "printer_result v =
     \<lparr>inheritance_chain = printer_chain v,
      effective_settings = printer_effective v,
      definition_changes = printer_changes v,
      error_marker = None,
      instance_cfg = Some (parse_cfg_file (printer_env v) ''machine_instances/Ender.global.cfg''),
      container_stack = Some [(''6'', JStr ''Ender_settings''), (''7'', JStr ''creality_ender3pro'')]\<rparr>"



section \<open>Dictionaries: lookup after update\<close>

lemma map_of_dict_update:
  "distinct (map fst other) \<Longrightarrow>
   map_of (dict_update d other) f = (case map_of other f of None \<Rightarrow> map_of d f | Some v \<Rightarrow> Some v)"
  unfolding dict_update_def
proof (induction other arbitrary: d)
  case Nil
  then show ?case by simp
next
  case (Cons p other)
  obtain k v where p: "p = (k, v)" by (cases p)
  from Cons.prems have d: "distinct (map fst other)" and nk: "k \<notin> fst ` set other"
    by (auto simp: p)
  from nk have none: "map_of other k = None"
    by (simp add: map_of_eq_None_iff)
  show ?case
    using Cons.IH [OF d, of "AList.update k v d"] none
    by (auto simp: p update_conv' split: option.splits)
qed

section \<open>The walker's overrides loop\<close>

lemma apply_overrides_other:
  "apply_overrides src ovs st = Inr res \<Longrightarrow> k \<notin> fst ` set ovs \<Longrightarrow> map_of res k = map_of st k"
proof (induction ovs arbitrary: st)
  case Nil
  then show ?case by simp
next
  case (Cons p ovs)
  obtain key ov where p: "p = (key, ov)" by (cases p)
  from Cons.prems show ?case
    by (auto simp: p update_conv' split: sum.splits dest!: Cons.IH)
qed

lemma apply_overrides_key:
  "distinct (map fst ovs) \<Longrightarrow> apply_overrides src ovs st = Inr res \<Longrightarrow> map_of ovs k = Some ov \<Longrightarrow>
   \<exists>entry. py_update (case map_of st k of None \<Rightarrow> [] | Some e \<Rightarrow> e) ov = Inr entry \<and>
           map_of res k = Some (AList.update ''_source'' src entry)"
proof (induction ovs arbitrary: st)
  case Nil
  then show ?case by simp
next
  case (Cons p ovs)
  obtain key ov' where p: "p = (key, ov')" by (cases p)
  show ?case
  proof (cases "key = k")
    case True
    with Cons.prems p have ov: "ov' = ov" and nk: "k \<notin> fst ` set ovs" by auto
    from Cons.prems(2) obtain entry where
      e: "py_update (case map_of st k of None \<Rightarrow> [] | Some e \<Rightarrow> e) ov = Inr entry" and
      r: "apply_overrides src ovs (AList.update k (AList.update ''_source'' src entry) st) = Inr res"
      by (auto simp: p True ov split: sum.splits)
    from apply_overrides_other [OF r nk] e show ?thesis
      by (simp add: update_conv')
  next
    case False
    from Cons.prems(2) obtain entry where
      r: "apply_overrides src ovs (AList.update key (AList.update ''_source'' src entry) st) = Inr res"
      by (auto simp: p split: sum.splits)
    from Cons.prems have d: "distinct (map fst ovs)" and m: "map_of ovs k = Some ov"
      using False by (auto simp: p)
    from Cons.IH [OF d r m] False show ?thesis
      by (simp add: update_conv')
  qed
qed

lemma apply_overrides_total:
  "\<forall>v \<in> snd ` set ovs. \<exists>d. v = JDict d \<Longrightarrow> \<exists>res. apply_overrides src ovs st = Inr res"
proof (induction ovs arbitrary: st)
  case Nil
  then show ?case by simp
next
  case (Cons p ovs)
  obtain key ov where p: "p = (key, ov)" by (cases p)
  from Cons.prems obtain d where ov: "ov = JDict d" by (auto simp: p)
  from Cons.prems have "\<forall>v \<in> snd ` set ovs. \<exists>d. v = JDict d" by auto
  from Cons.IH [OF this] show ?case by (simp add: p ov)
qed

lemma map_of_dict_update_other:
  "f \<notin> fst ` set other \<Longrightarrow> map_of (dict_update d other) f = map_of d f"
  unfolding dict_update_def
proof (induction other arbitrary: d)
  case Nil
  then show ?case by simp
next
  case (Cons p other)
  obtain k v where p: "p = (k, v)" by (cases p)
  from Cons.prems have "f \<notin> fst ` set other" "f \<noteq> k" by (auto simp: p)
  with Cons.IH [of "AList.update k v d"] show ?case by (simp add: p update_conv')
qed

lemma walker_entry:
  assumes tree: "extract_settings_tree def_data = Inr st"
    and base: "map_of st key = Some base"
    and ovs: "map_of def_data ''overrides'' = Some (JDict overrides)"
    and dist: "distinct (map fst overrides)"
    and dicts: "\<forall>v \<in> snd ` set overrides. \<exists>d. v = JDict d"
    and ov: "map_of overrides key = Some (JDict override)"
    and fname: "map_of def_data ''_filename'' = Some fname"
  shows "\<exists>res. extract_settings_from_def def_data = Inr res \<and>
           map_of res key = Some (AList.update ''_source'' fname (dict_update base override))"
proof -
  from apply_overrides_total [OF dicts] obtain res where
    res: "apply_overrides fname overrides st = Inr res" by blast
  have ex: "extract_settings_from_def def_data = Inr res"
    by (simp add: extract_settings_from_def_def tree ovs fname res)
  from apply_overrides_key [OF dist res ov] base
  have "map_of res key = Some (AList.update ''_source'' fname (dict_update base override))"
    by simp
  with ex show ?thesis by blast
qed

lemma parse_def_json_filename:
  assumes doc: "json_files e filepath = JsonFile data"
  shows "parse_def_json e filepath = Inr (dict_update (new_result e filepath) data)"
    and "''_filename'' \<notin> fst ` set data \<Longrightarrow>
         map_of (dict_update (new_result e filepath) data) ''_filename'' =
           Some (JStr (path_name e filepath))"
  by (simp_all add: parse_def_json_def doc map_of_dict_update_other new_result_def)

section \<open>The resolver loop\<close>

lemma build_chain_step:
  "resolvable e current_def \<Longrightarrow>
   build_chain e chain current_def = build_chain e (chain @ [link_of e current_def]) (parent e current_def)"
  by (subst build_chain.simps)
     (auto simp: resolvable_def link_of_def parent_def parse_def_json_def split: json_file.splits)

lemma build_chain_stop:
  "\<not> truthy current_def \<or> json_files e (def_path e current_def) = NoFile \<Longrightarrow>
   build_chain e chain current_def = Some (Inr chain)"
  by (subst build_chain.simps) auto

lemma build_chain_raises:
  "truthy current_def \<Longrightarrow> json_files e (def_path e current_def) = NoStat \<Longrightarrow>
   build_chain e chain current_def = Some (Inl OSError)"
  by (subst build_chain.simps) simp

lemma build_chain_missing_parent:
  assumes r: "resolvable e current_def"
    and miss: "json_files e (def_path e (parent e current_def)) = NoFile"
  shows "build_chain e chain current_def = Some (Inr (chain @ [link_of e current_def]))"
  using miss by (simp add: build_chain_step [OF r] build_chain_stop)

lemma build_chain_ends:
  "\<not> resolvable e current_def \<Longrightarrow>
   build_chain e chain current_def = Some (Inr chain) \<or>
   build_chain e chain current_def = Some (Inl OSError)"
  using build_chain_stop [of current_def e chain] build_chain_raises [of current_def e chain]
  by (auto simp: resolvable_def)

lemma build_chain_bounded:
  "\<not> resolvable e ((parent e ^^ n) current_def) \<Longrightarrow> \<exists>c. build_chain e chain current_def = Some c"
proof (induction n arbitrary: chain current_def)
  case 0
  then show ?case using build_chain_ends [of e current_def chain] by auto
next
  case (Suc n)
  show ?case
  proof (cases "resolvable e current_def")
    case True
    from Suc.prems have "\<not> resolvable e ((parent e ^^ n) (parent e current_def))"
      by (simp add: funpow_swap1)
    from Suc.IH [OF this] show ?thesis by (simp add: build_chain_step [OF True])
  next
    case False
    then show ?thesis using build_chain_ends [of e current_def chain] by auto
  qed
qed

lemma build_chain_returns_bounded:
  assumes "build_chain e chain current_def = Some c"
  shows "\<exists>n. \<not> resolvable e ((parent e ^^ n) current_def)"
proof (rule build_chain.raw_induct
    [where P = "\<lambda>e chain cd c. \<exists>n. \<not> resolvable e ((parent e ^^ n) cd)", OF _ assms])
  fix f :: "env \<Rightarrow> link list \<Rightarrow> json \<Rightarrow> (error + link list) option" and e chain current_def c
  assume IH: "\<And>e chain cd y. f e chain cd = Some y \<Longrightarrow> \<exists>n. \<not> resolvable e ((parent e ^^ n) cd)"
    and eq: "(if truthy current_def
      then (case json_files e (def_path e current_def) of
              NoStat \<Rightarrow> Some (Inl OSError)
            | NoFile \<Rightarrow> Some (Inr chain)
            | _ \<Rightarrow>
                (case parse_def_json e (def_path e current_def) of
                   Inl err \<Rightarrow> Some (Inl err)
                 | Inr def_data \<Rightarrow>
                     f e
                       (chain @ [\<lparr>link_name = current_def,
                                  link_file = def_path e current_def,
                                  link_inherits = py_get def_data ''inherits''\<rparr>])
                       (py_get def_data ''inherits'')))
      else Some (Inr chain)) = Some c"
  show "\<exists>n. \<not> resolvable e ((parent e ^^ n) current_def)"
  proof (cases "resolvable e current_def")
    case True
    with eq have "f e (chain @ [link_of e current_def]) (parent e current_def) = Some c"
      by (auto simp: resolvable_def link_of_def parent_def parse_def_json_def
            split: json_file.splits)
    from IH [OF this] obtain n where "\<not> resolvable e ((parent e ^^ n) (parent e current_def))"
      by blast
    then have "\<not> resolvable e ((parent e ^^ Suc n) current_def)"
      by (simp add: funpow_swap1)
    then show ?thesis by blast
  next
    case False
    then have "\<not> resolvable e ((parent e ^^ 0) current_def)" by simp
    then show ?thesis by blast
  qed
qed

section \<open>The merger loops\<close>

lemma append_source_Inr:
  "append_source d x = Inr entry \<Longrightarrow>
   \<exists>ps. map_of d ''_sources'' = Some (JList ps) \<and>
        entry = AList.update ''_sources'' (JList (ps @ [x])) d"
  by (auto simp: append_source_def split: option.splits json.splits)

lemma append_source_sources:
  "append_source d x = Inr entry \<Longrightarrow>
   \<exists>ps. map_of d ''_sources'' = Some (JList ps) \<and> map_of entry ''_sources'' = Some (JList (ps @ [x]))"
  by (auto dest!: append_source_Inr simp: update_conv')

lemma append_source_field:
  "append_source d x = Inr entry \<Longrightarrow> f \<noteq> ''_sources'' \<Longrightarrow> map_of entry f = map_of d f"
  by (auto dest!: append_source_Inr simp: update_conv')

lemma merge_settings_keys:
  "merge_settings nm s eff = Inr eff' \<Longrightarrow> fst ` set eff' = fst ` set eff \<union> fst ` set s"
proof (induction s arbitrary: eff)
  case Nil
  then show ?case by simp
next
  case (Cons p s)
  obtain key v where p: "p = (key, v)" by (cases p)
  from Cons.prems obtain entry where
    r: "merge_settings nm s (AList.update key entry eff) = Inr eff'"
    by (auto simp: p split: sum.splits)
  from Cons.IH [OF r] show ?case by (auto simp: p dom_update)
qed

lemma merge_settings_distinct:
  "merge_settings nm s eff = Inr eff' \<Longrightarrow> distinct (map fst eff) \<Longrightarrow> distinct (map fst eff')"
proof (induction s arbitrary: eff)
  case Nil
  then show ?case by simp
next
  case (Cons p s)
  obtain key v where p: "p = (key, v)" by (cases p)
  from Cons.prems obtain entry where
    r: "merge_settings nm s (AList.update key entry eff) = Inr eff'"
    by (auto simp: p split: sum.splits)
  from Cons.IH [OF r] Cons.prems(2) show ?case by (simp add: distinct_update)
qed

lemma sourced_update:
  "sourced eff \<Longrightarrow> map_of entry ''_sources'' = Some (JList ps) \<Longrightarrow> ps \<noteq> [] \<Longrightarrow>
   sourced (AList.update key entry eff)"
  by (auto simp: sourced_def update_conv')

lemma merge_settings_sourced:
  "merge_settings nm s eff = Inr eff' \<Longrightarrow> sourced eff \<Longrightarrow> sourced eff'"
proof (induction s arbitrary: eff)
  case Nil
  then show ?case by simp
next
  case (Cons p s)
  obtain key v where p: "p = (key, v)" by (cases p)
  from Cons.prems obtain entry where
    a: "append_source (dict_update (entry_of eff key) v) nm = Inr entry" and
    r: "merge_settings nm s (AList.update key entry eff) = Inr eff'"
    by (auto simp: p split: sum.splits)
  from append_source_sources [OF a] obtain ps where
    "map_of entry ''_sources'' = Some (JList (ps @ [nm]))" by blast
  then have "sourced (AList.update key entry eff)"
    using Cons.prems(2) by (auto intro: sourced_update)
  from Cons.IH [OF r this] show ?case .
qed

text \<open>The body of the outer loop, in terms of what the link's document yields.\<close>

lemma merge_chain_layer:
  "merge_chain e (l # ls) eff =
     (case layer_settings e l of
        Inl err \<Rightarrow> Inl err
      | Inr s \<Rightarrow>
          (case merge_settings (link_name l) s eff of
             Inl err \<Rightarrow> Inl err
           | Inr eff' \<Rightarrow> merge_chain e ls eff'))"
  by (simp add: layer_settings_def split: sum.splits)

lemma merge_chain_keys:
  "merge_chain e ls eff = Inr eff' \<Longrightarrow>
   fst ` set eff' = fst ` set eff \<union> (\<Union>l \<in> set ls. layer_keys e l)"
proof (induction ls arbitrary: eff)
  case Nil
  then show ?case by simp
next
  case (Cons l ls)
  from Cons.prems obtain s eff1 where
    s: "layer_settings e l = Inr s" and
    m: "merge_settings (link_name l) s eff = Inr eff1" and
    r: "merge_chain e ls eff1 = Inr eff'"
    by (auto simp: layer_settings_def split: sum.splits)
  from Cons.IH [OF r] merge_settings_keys [OF m] s show ?case
    by (auto simp: layer_keys_def)
qed

lemma merge_chain_distinct:
  "merge_chain e ls eff = Inr eff' \<Longrightarrow> distinct (map fst eff) \<Longrightarrow> distinct (map fst eff')"
proof (induction ls arbitrary: eff)
  case Nil
  then show ?case by simp
next
  case (Cons l ls)
  from Cons.prems obtain s eff1 where
    m: "merge_settings (link_name l) s eff = Inr eff1" and
    r: "merge_chain e ls eff1 = Inr eff'"
    by (auto split: sum.splits)
  from Cons.IH [OF r merge_settings_distinct [OF m Cons.prems(2)]] show ?case .
qed

lemma merge_chain_sourced:
  "merge_chain e ls eff = Inr eff' \<Longrightarrow> sourced eff \<Longrightarrow> sourced eff'"
proof (induction ls arbitrary: eff)
  case Nil
  then show ?case by simp
next
  case (Cons l ls)
  from Cons.prems obtain s eff1 where
    m: "merge_settings (link_name l) s eff = Inr eff1" and
    r: "merge_chain e ls eff1 = Inr eff'"
    by (auto split: sum.splits)
  from Cons.IH [OF r merge_settings_sourced [OF m Cons.prems(2)]] show ?case .
qed

lemma merge_chain_visits:
  "merge_chain e ls eff = Inr eff' \<Longrightarrow> l \<in> set ls \<Longrightarrow> \<exists>s. layer_settings e l = Inr s"
proof (induction ls arbitrary: eff)
  case Nil
  then show ?case by simp
next
  case (Cons l' ls)
  from Cons.prems(1) obtain s eff1 where
    s: "layer_settings e l' = Inr s" and
    r: "merge_chain e ls eff1 = Inr eff'"
    by (auto simp: layer_settings_def split: sum.splits)
  from Cons.prems(2) Cons.IH [OF r] s show ?case by auto
qed

lemma apply_values_keys:
  "apply_values vals eff = Inr eff' \<Longrightarrow> fst ` set eff' = fst ` set eff \<union> fst ` set vals"
proof (induction vals arbitrary: eff)
  case Nil
  then show ?case by simp
next
  case (Cons p vals)
  obtain key v where p: "p = (key, v)" by (cases p)
  from Cons.prems obtain entry where
    r: "apply_values vals (AList.update key entry eff) = Inr eff'"
    by (auto simp: p split: sum.splits)
  from Cons.IH [OF r] show ?case by (auto simp: p dom_update)
qed

lemma apply_values_distinct:
  "apply_values vals eff = Inr eff' \<Longrightarrow> distinct (map fst eff) \<Longrightarrow> distinct (map fst eff')"
proof (induction vals arbitrary: eff)
  case Nil
  then show ?case by simp
next
  case (Cons p vals)
  obtain key v where p: "p = (key, v)" by (cases p)
  from Cons.prems obtain entry where
    r: "apply_values vals (AList.update key entry eff) = Inr eff'"
    by (auto simp: p split: sum.splits)
  from Cons.IH [OF r] Cons.prems(2) show ?case by (simp add: distinct_update)
qed

lemma apply_values_sourced:
  "apply_values vals eff = Inr eff' \<Longrightarrow> sourced eff \<Longrightarrow> sourced eff'"
proof (induction vals arbitrary: eff)
  case Nil
  then show ?case by simp
next
  case (Cons p vals)
  obtain key v where p: "p = (key, v)" by (cases p)
  from Cons.prems obtain entry where
    a: "append_source (AList.update ''effective_value'' v (entry_of eff key))
          (JStr ''definition_changes'') = Inr entry" and
    r: "apply_values vals (AList.update key entry eff) = Inr eff'"
    by (auto simp: p split: sum.splits)
  from append_source_sources [OF a] obtain ps where
    "map_of entry ''_sources'' = Some (JList (ps @ [JStr ''definition_changes'']))" by blast
  then have "sourced (AList.update key entry eff)"
    using Cons.prems(2) by (auto intro: sourced_update)
  from Cons.IH [OF r this] show ?case .
qed

lemma apply_values_other:
  "apply_values vals eff = Inr eff' \<Longrightarrow> k \<notin> fst ` set vals \<Longrightarrow> map_of eff' k = map_of eff k"
proof (induction vals arbitrary: eff)
  case Nil
  then show ?case by simp
next
  case (Cons p vals)
  obtain key v where p: "p = (key, v)" by (cases p)
  from Cons.prems obtain entry where
    r: "apply_values vals (AList.update key entry eff) = Inr eff'"
    by (auto simp: p split: sum.splits)
  from Cons.prems(2) have "k \<notin> fst ` set vals" "k \<noteq> key" by (auto simp: p)
  with Cons.IH [OF r] show ?case by (simp add: update_conv')
qed

text \<open>What the override loop leaves for a key of the override map.\<close>

lemma apply_values_key:
  "apply_values vals eff = Inr eff' \<Longrightarrow> distinct (map fst vals) \<Longrightarrow> map_of vals k = Some v \<Longrightarrow>
   \<exists>entry. append_source (AList.update ''effective_value'' v (entry_of eff k))
             (JStr ''definition_changes'') = Inr entry \<and> map_of eff' k = Some entry"
proof (induction vals arbitrary: eff)
  case Nil
  then show ?case by simp
next
  case (Cons p vals)
  obtain key v' where p: "p = (key, v')" by (cases p)
  from Cons.prems(1) obtain entry where
    a: "append_source (AList.update ''effective_value'' v' (entry_of eff key))
          (JStr ''definition_changes'') = Inr entry" and
    r: "apply_values vals (AList.update key entry eff) = Inr eff'"
    by (auto simp: p split: sum.splits)
  show ?case
  proof (cases "key = k")
    case True
    with Cons.prems p have v: "v' = v" and nk: "k \<notin> fst ` set vals" by auto
    from apply_values_other [OF r nk] a show ?thesis
      by (simp add: True v update_conv')
  next
    case False
    from Cons.prems False have d: "distinct (map fst vals)" and m: "map_of vals k = Some v"
      by (auto simp: p)
    from Cons.IH [OF r d m] False show ?thesis
      by (simp add: entry_of_def update_conv')
  qed
qed

lemma provenance_update:
  "provenance (AList.update key entry eff) k =
     (if k = key then (case map_of entry ''_sources'' of Some (JList ps) \<Rightarrow> ps | _ \<Rightarrow> [])
      else provenance eff k)"
  by (simp add: provenance_def update_conv')

lemma has_sources_update:
  "has_sources eff \<Longrightarrow> map_of entry ''_sources'' = Some (JList ps) \<Longrightarrow>
   has_sources (AList.update key entry eff)"
  by (auto simp: has_sources_def update_conv')

lemma entry_of_sources:
  "has_sources eff \<Longrightarrow> map_of (entry_of eff key) ''_sources'' = Some (JList (provenance eff key))"
proof (cases "map_of eff key")
  case None
  then show ?thesis by (simp add: entry_of_def provenance_def)
next
  case (Some entry)
  assume "has_sources eff"
  with Some obtain ps where "map_of entry ''_sources'' = Some (JList ps)"
    unfolding has_sources_def by blast
  with Some show ?thesis by (simp add: entry_of_def provenance_def)
qed

lemma merge_settings_provenance:
  "distinct (map fst s) \<Longrightarrow> plain s \<Longrightarrow> has_sources eff \<Longrightarrow>
   \<exists>eff'. merge_settings nm s eff = Inr eff' \<and> has_sources eff' \<and>
     (\<forall>k. provenance eff' k = provenance eff k @ (if k \<in> fst ` set s then [nm] else []))"
proof (induction s arbitrary: eff)
  case Nil
  then show ?case by simp
next
  case (Cons p s)
  obtain key v where p: "p = (key, v)" by (cases p)
  from Cons.prems have d: "distinct (map fst s)" and nk: "key \<notin> fst ` set s"
    and pl: "plain s" and nv: "''_sources'' \<notin> fst ` set v"
    by (auto simp: p plain_def)
  let ?entry = "AList.update ''_sources'' (JList (provenance eff key @ [nm]))
                  (dict_update (entry_of eff key) v)"
  have src: "map_of (dict_update (entry_of eff key) v) ''_sources'' = Some (JList (provenance eff key))"
    using entry_of_sources [OF Cons.prems(3)] by (simp add: map_of_dict_update_other [OF nv])
  then have a: "append_source (dict_update (entry_of eff key) v) nm = Inr ?entry"
    by (simp add: append_source_def)
  have hs: "has_sources (AList.update key ?entry eff)"
    by (rule has_sources_update [OF Cons.prems(3)]) (simp add: update_conv')
  from Cons.IH [OF d pl hs] obtain eff' where
    r: "merge_settings nm s (AList.update key ?entry eff) = Inr eff'" and
    h: "has_sources eff'" and
    pr: "\<forall>k. provenance eff' k =
           provenance (AList.update key ?entry eff) k @ (if k \<in> fst ` set s then [nm] else [])"
    by blast
  have "merge_settings nm (p # s) eff = Inr eff'"
    by (simp add: p a r)
  moreover have "provenance eff' k = provenance eff k @ (if k \<in> fst ` set (p # s) then [nm] else [])" for k
    using pr nk by (auto simp: p provenance_update update_conv')
  ultimately show ?case using h by blast
qed

lemma extract_node_distinct:
  "distinct (map fst st) \<Longrightarrow> distinct (map fst (extract_node node path st))"
  by (simp add: extract_node_def distinct_update split: option.splits)

lemma recurse_distinct:
  "recurse node path st = Inr st' \<Longrightarrow> distinct (map fst st) \<Longrightarrow> distinct (map fst st')"
  "recurse_children kvs st = Inr st' \<Longrightarrow> distinct (map fst st) \<Longrightarrow> distinct (map fst st')"
proof (induction node path st and kvs st arbitrary: st' and st' rule: recurse_recurse_children.induct)
  case (1 node path st)
  then show ?case
    by (auto simp: extract_node_distinct split: option.splits json.splits sum.splits)
next
  case (9 key child rest st)
  then show ?case by (auto split: sum.splits)
qed (auto split: if_splits)

lemma apply_overrides_distinct:
  "apply_overrides src ovs st = Inr st' \<Longrightarrow> distinct (map fst st) \<Longrightarrow> distinct (map fst st')"
proof (induction ovs arbitrary: st)
  case Nil
  then show ?case by simp
next
  case (Cons p ovs)
  obtain key ov where p: "p = (key, ov)" by (cases p)
  from Cons.prems obtain entry where
    r: "apply_overrides src ovs (AList.update key (AList.update ''_source'' src entry) st) = Inr st'"
    by (auto simp: p split: sum.splits)
  from Cons.IH [OF r] Cons.prems(2) show ?case by (simp add: distinct_update)
qed

lemma extract_settings_from_def_distinct:
  "extract_settings_from_def def_data = Inr s \<Longrightarrow> distinct (map fst s)"
  by (auto simp: extract_settings_from_def_def extract_settings_tree_def
        split: sum.splits option.splits json.splits
        dest: recurse_distinct(2) apply_overrides_distinct)

lemma layer_settings_distinct: "layer_settings e l = Inr s \<Longrightarrow> distinct (map fst s)"
  by (auto simp: layer_settings_def split: sum.splits dest: extract_settings_from_def_distinct)

lemma merge_chain_provenance:
  "merge_chain e ls eff = Inr eff' \<Longrightarrow> has_sources eff \<Longrightarrow>
   (\<forall>l \<in> set ls. \<forall>s. layer_settings e l = Inr s \<longrightarrow> plain s) \<Longrightarrow>
   has_sources eff' \<and>
   (\<forall>k. provenance eff' k =
          provenance eff k @ map link_name (filter (\<lambda>l. k \<in> layer_keys e l) ls))"
proof (induction ls arbitrary: eff)
  case Nil
  then show ?case by simp
next
  case (Cons l ls)
  from Cons.prems(1) obtain s eff1 where
    s: "layer_settings e l = Inr s" and
    m: "merge_settings (link_name l) s eff = Inr eff1" and
    r: "merge_chain e ls eff1 = Inr eff'"
    by (auto simp: layer_settings_def split: sum.splits)
  from s have d: "distinct (map fst s)"
    by (rule layer_settings_distinct)
  from Cons.prems(3) s have pl: "plain s" by simp
  from merge_settings_provenance [OF d pl Cons.prems(2), of "link_name l"] m
  have h1: "has_sources eff1" and
    p1: "\<forall>k. provenance eff1 k = provenance eff k @ (if k \<in> fst ` set s then [link_name l] else [])"
    by auto
  from Cons.prems(3) have rest: "\<forall>l \<in> set ls. \<forall>s. layer_settings e l = Inr s \<longrightarrow> plain s"
    by simp
  from Cons.IH [OF r h1 rest] p1 s show ?case
    by (auto simp: layer_keys_def)
qed

lemma merge_chain_returns:
  "\<forall>l \<in> set ls. \<exists>s. layer_settings e l = Inr s \<and> plain s \<Longrightarrow> has_sources eff \<Longrightarrow>
   \<exists>eff'. merge_chain e ls eff = Inr eff'"
proof (induction ls arbitrary: eff)
  case Nil
  then show ?case by simp
next
  case (Cons l ls)
  from Cons.prems(1) obtain s where s: "layer_settings e l = Inr s" and pl: "plain s" by auto
  from s have d: "distinct (map fst s)"
    by (rule layer_settings_distinct)
  from merge_settings_provenance [OF d pl Cons.prems(2), of "link_name l"] obtain eff1 where
    m: "merge_settings (link_name l) s eff = Inr eff1" and h: "has_sources eff1" by blast
  from Cons.prems(1) have "\<forall>l \<in> set ls. \<exists>s. layer_settings e l = Inr s \<and> plain s" by simp
  from Cons.IH [OF this h] obtain eff' where "merge_chain e ls eff1 = Inr eff'" by blast
  with s m show ?case by (auto simp: layer_settings_def split: sum.splits)
qed

lemma apply_values_provenance:
  "distinct (map fst vals) \<Longrightarrow> has_sources eff \<Longrightarrow>
   \<exists>eff'. apply_values vals eff = Inr eff' \<and> has_sources eff' \<and>
     (\<forall>k. provenance eff' k =
            provenance eff k @ (if k \<in> fst ` set vals then [JStr ''definition_changes''] else []))"
proof (induction vals arbitrary: eff)
  case Nil
  then show ?case by simp
next
  case (Cons p vals)
  obtain key v where p: "p = (key, v)" by (cases p)
  from Cons.prems have d: "distinct (map fst vals)" and nk: "key \<notin> fst ` set vals"
    by (auto simp: p)
  let ?entry = "AList.update ''_sources'' (JList (provenance eff key @ [JStr ''definition_changes'']))
                  (AList.update ''effective_value'' v (entry_of eff key))"
  have "map_of (AList.update ''effective_value'' v (entry_of eff key)) ''_sources'' =
          Some (JList (provenance eff key))"
    using entry_of_sources [OF Cons.prems(2)] by (simp add: update_conv')
  then have a: "append_source (AList.update ''effective_value'' v (entry_of eff key))
                  (JStr ''definition_changes'') = Inr ?entry"
    by (simp add: append_source_def)
  have hs: "has_sources (AList.update key ?entry eff)"
    by (rule has_sources_update [OF Cons.prems(2)]) (simp add: update_conv')
  from Cons.IH [OF d hs] obtain eff' where
    r: "apply_values vals (AList.update key ?entry eff) = Inr eff'" and
    h: "has_sources eff'" and
    pr: "\<forall>k. provenance eff' k = provenance (AList.update key ?entry eff) k @
           (if k \<in> fst ` set vals then [JStr ''definition_changes''] else [])"
    by blast
  have "apply_values (p # vals) eff = Inr eff'"
    by (simp add: p a r)
  moreover have "provenance eff' k = provenance eff k @
      (if k \<in> fst ` set (p # vals) then [JStr ''definition_changes''] else [])" for k
    using pr nk by (auto simp: p provenance_update update_conv')
  ultimately show ?case using h by blast
qed

lemma set_alist_update: "set (AList.update k v al) \<subseteq> insert (k, v) (set al)"
  by (induction al) auto

lemma dicts_update: "dicts st \<Longrightarrow> distinct (map fst v) \<Longrightarrow> dicts (AList.update k v st)"
  using set_alist_update [of k v st] by (fastforce simp: dicts_def)

lemma dict_update_distinct: "distinct (map fst d) \<Longrightarrow> distinct (map fst (dict_update d other))"
  unfolding dict_update_def
  by (induction other arbitrary: d) (auto simp: distinct_update)

lemma setting_info_distinct: "distinct (map fst (setting_info node))"
proof -
  have "distinct (map fst info) \<Longrightarrow>
        distinct (map fst (fold (\<lambda>prop info. case map_of node prop of None \<Rightarrow> info
                  | Some v \<Rightarrow> AList.update prop v info) ps info))" for ps info
    by (induction ps arbitrary: info) (auto simp: distinct_update split: option.splits)
  then show ?thesis by (simp add: setting_info_def)
qed

lemma extract_node_dicts: "dicts st \<Longrightarrow> dicts (extract_node node path st)"
  by (simp add: extract_node_def dicts_update setting_info_distinct split: option.splits)

lemma recurse_dicts:
  "recurse node path st = Inr st' \<Longrightarrow> dicts st \<Longrightarrow> dicts st'"
  "recurse_children kvs st = Inr st' \<Longrightarrow> dicts st \<Longrightarrow> dicts st'"
proof (induction node path st and kvs st arbitrary: st' and st' rule: recurse_recurse_children.induct)
  case (1 node path st)
  then show ?case
    by (auto simp: extract_node_dicts split: option.splits json.splits sum.splits)
next
  case (9 key child rest st)
  then show ?case by (auto split: sum.splits)
qed (auto split: if_splits)

lemma py_update_distinct:
  "py_update d x = Inr d' \<Longrightarrow> distinct (map fst d) \<Longrightarrow> distinct (map fst d')"
  by (cases x) (auto simp: dict_update_distinct split: if_splits)

lemma map_of_dicts: "dicts st \<Longrightarrow> map_of st k = Some v \<Longrightarrow> distinct (map fst v)"
  by (auto simp: dicts_def dest!: map_of_SomeD)

lemma apply_overrides_dicts:
  "apply_overrides src ovs st = Inr st' \<Longrightarrow> dicts st \<Longrightarrow> dicts st'"
proof (induction ovs arbitrary: st)
  case Nil
  then show ?case by simp
next
  case (Cons p ovs)
  obtain key ov where p: "p = (key, ov)" by (cases p)
  from Cons.prems obtain entry where
    u: "py_update (case map_of st key of None \<Rightarrow> [] | Some e \<Rightarrow> e) ov = Inr entry" and
    r: "apply_overrides src ovs (AList.update key (AList.update ''_source'' src entry) st) = Inr st'"
    by (auto simp: p split: sum.splits)
  have "distinct (map fst (case map_of st key of None \<Rightarrow> [] | Some e \<Rightarrow> e))"
    using Cons.prems(2) by (auto split: option.splits dest: map_of_dicts)
  from py_update_distinct [OF u this] have "distinct (map fst (AList.update ''_source'' src entry))"
    by (simp add: distinct_update)
  with Cons.prems(2) have "dicts (AList.update key (AList.update ''_source'' src entry) st)"
    by (simp add: dicts_update)
  from Cons.IH [OF r this] show ?case .
qed

lemma extract_settings_from_def_dicts:
  "extract_settings_from_def def_data = Inr s \<Longrightarrow> dicts s"
proof -
  have e: "dicts []" by (simp add: dicts_def)
  assume "extract_settings_from_def def_data = Inr s"
  then show ?thesis
    using e
    by (auto simp: extract_settings_from_def_def extract_settings_tree_def
          split: sum.splits option.splits json.splits
          dest: recurse_dicts(2) apply_overrides_dicts)
qed

lemma layer_settings_dicts: "layer_settings e l = Inr s \<Longrightarrow> dicts s"
  by (auto simp: layer_settings_def split: sum.splits dest: extract_settings_from_def_dicts)

lemma merge_settings_other:
  "merge_settings nm s eff = Inr eff' \<Longrightarrow> k \<notin> fst ` set s \<Longrightarrow> map_of eff' k = map_of eff k"
proof (induction s arbitrary: eff)
  case Nil
  then show ?case by simp
next
  case (Cons p s)
  obtain key v where p: "p = (key, v)" by (cases p)
  from Cons.prems obtain entry where
    r: "merge_settings nm s (AList.update key entry eff) = Inr eff'"
    by (auto simp: p split: sum.splits)
  from Cons.prems(2) have "k \<notin> fst ` set s" "k \<noteq> key" by (auto simp: p)
  with Cons.IH [OF r] show ?case by (simp add: update_conv')
qed

lemma merge_settings_key:
  "merge_settings nm s eff = Inr eff' \<Longrightarrow> distinct (map fst s) \<Longrightarrow> map_of s k = Some v \<Longrightarrow>
   \<exists>entry. append_source (dict_update (entry_of eff k) v) nm = Inr entry \<and>
           map_of eff' k = Some entry"
proof (induction s arbitrary: eff)
  case Nil
  then show ?case by simp
next
  case (Cons p s)
  obtain key v' where p: "p = (key, v')" by (cases p)
  from Cons.prems(1) obtain entry where
    a: "append_source (dict_update (entry_of eff key) v') nm = Inr entry" and
    r: "merge_settings nm s (AList.update key entry eff) = Inr eff'"
    by (auto simp: p split: sum.splits)
  show ?case
  proof (cases "key = k")
    case True
    with Cons.prems p have v: "v' = v" and nk: "k \<notin> fst ` set s" by auto
    from merge_settings_other [OF r nk] a show ?thesis
      by (simp add: True v update_conv')
  next
    case False
    from Cons.prems False have d: "distinct (map fst s)" and m: "map_of s k = Some v"
      by (auto simp: p)
    from Cons.IH [OF r d m] False show ?thesis
      by (simp add: entry_of_def update_conv')
  qed
qed

text \<open>A layer that sets field \<open>f\<close> of a key leaves that value in the merged entry.\<close>

lemma merge_settings_sets_field:
  assumes m: "merge_settings nm s eff = Inr eff'" and d: "distinct (map fst s)"
    and k: "map_of s k = Some v" and dv: "distinct (map fst v)"
    and f: "map_of v f = Some x" and nf: "f \<noteq> ''_sources''"
  shows "field eff' k f = Some x"
proof -
  from merge_settings_key [OF m d k] obtain entry where
    a: "append_source (dict_update (entry_of eff k) v) nm = Inr entry" and
    e: "map_of eff' k = Some entry" by blast
  from append_source_field [OF a nf] f show ?thesis
    by (simp add: field_def e map_of_dict_update [OF dv])
qed

text \<open>A layer that does not set field \<open>f\<close> of a key leaves the merged value as it was.\<close>

lemma merge_settings_keeps_field:
  assumes m: "merge_settings nm s eff = Inr eff'" and d: "distinct (map fst s)"
    and no: "\<forall>v. map_of s k = Some v \<longrightarrow> map_of v f = None"
    and nf: "f \<noteq> ''_sources''" and old: "field eff k f = Some x"
  shows "field eff' k f = Some x"
proof (cases "map_of s k")
  case None
  then have "k \<notin> fst ` set s" by (simp add: map_of_eq_None_iff)
  from merge_settings_other [OF m this] old show ?thesis by (simp add: field_def)
next
  case (Some v)
  from merge_settings_key [OF m d Some] obtain entry where
    a: "append_source (dict_update (entry_of eff k) v) nm = Inr entry" and
    e: "map_of eff' k = Some entry" by blast
  from no Some have "f \<notin> fst ` set v" by (simp add: map_of_eq_None_iff)
  from map_of_dict_update_other [OF this] append_source_field [OF a nf] old
  show ?thesis
    by (auto simp: field_def e entry_of_def split: option.splits)
qed

lemma merge_chain_append:
  "merge_chain e (xs @ ys) eff =
     (case merge_chain e xs eff of Inl err \<Rightarrow> Inl err | Inr mid \<Rightarrow> merge_chain e ys mid)"
  by (induction xs arbitrary: eff) (auto split: sum.splits)

lemma merge_chain_keeps_field:
  "merge_chain e ls eff = Inr eff' \<Longrightarrow>
   \<forall>l \<in> set ls. \<forall>s v. layer_settings e l = Inr s \<longrightarrow> map_of s k = Some v \<longrightarrow> map_of v f = None \<Longrightarrow>
   f \<noteq> ''_sources'' \<Longrightarrow> field eff k f = Some x \<Longrightarrow> field eff' k f = Some x"
proof (induction ls arbitrary: eff)
  case Nil
  then show ?case by simp
next
  case (Cons l ls)
  from Cons.prems(1) obtain s eff1 where
    s: "layer_settings e l = Inr s" and
    m: "merge_settings (link_name l) s eff = Inr eff1" and
    r: "merge_chain e ls eff1 = Inr eff'"
    by (auto simp: layer_settings_def split: sum.splits)
  from s have d: "distinct (map fst s)"
    by (rule layer_settings_distinct)
  from Cons.prems(2) s have no: "\<forall>v. map_of s k = Some v \<longrightarrow> map_of v f = None" by simp
  from merge_settings_keeps_field [OF m d no Cons.prems(3) Cons.prems(4)]
  have f1: "field eff1 k f = Some x" .
  from Cons.prems(2) have rest:
    "\<forall>l \<in> set ls. \<forall>s v. layer_settings e l = Inr s \<longrightarrow> map_of s k = Some v \<longrightarrow> map_of v f = None"
    by simp
  from Cons.IH [OF r rest Cons.prems(3) f1] show ?case .
qed

text \<open>The most specific layer that sets a field decides it.\<close>

lemma merge_chain_most_specific:
  assumes m: "merge_chain e (general @ l # specific) eff = Inr eff'"
    and s: "layer_settings e l = Inr s" and k: "map_of s k = Some v" and f: "map_of v f = Some x"
    and nf: "f \<noteq> ''_sources''"
    and no: "\<forall>l' \<in> set specific. \<forall>s' v'. layer_settings e l' = Inr s' \<longrightarrow>
               map_of s' k = Some v' \<longrightarrow> map_of v' f = None"
  shows "field eff' k f = Some x"
proof -
  from m obtain eff1 where
    r: "merge_chain e (l # specific) eff1 = Inr eff'"
    by (auto simp: merge_chain_append split: sum.splits)
  with s obtain eff2 where
    ms: "merge_settings (link_name l) s eff1 = Inr eff2" and
    r2: "merge_chain e specific eff2 = Inr eff'"
    by (auto simp: layer_settings_def split: sum.splits)
  from s have d: "distinct (map fst s)" and ds: "dicts s"
    by (auto dest: layer_settings_distinct layer_settings_dicts)
  from map_of_dicts [OF ds k] have dv: "distinct (map fst v)" .
  from merge_settings_sets_field [OF ms d k dv f nf] have "field eff2 k f = Some x" .
  from merge_chain_keeps_field [OF r2 no nf this] show ?thesis .
qed

lemma apply_values_keeps_mark:
  "apply_values vals eff = Inr eff' \<Longrightarrow> marked eff k \<Longrightarrow> marked eff' k"
proof (induction vals arbitrary: eff)
  case Nil
  then show ?case by simp
next
  case (Cons p vals)
  obtain key v where p: "p = (key, v)" by (cases p)
  from Cons.prems(1) obtain entry where
    a: "append_source (AList.update ''effective_value'' v (entry_of eff key))
          (JStr ''definition_changes'') = Inr entry" and
    r: "apply_values vals (AList.update key entry eff) = Inr eff'"
    by (auto simp: p split: sum.splits)
  from append_source_sources [OF a] obtain ps where
    "map_of entry ''_sources'' = Some (JList (ps @ [JStr ''definition_changes'']))" by blast
  with Cons.prems(2) have "marked (AList.update key entry eff) k"
    by (auto simp: marked_def update_conv')
  from Cons.IH [OF r this] show ?case .
qed

lemma apply_values_marks:
  "apply_values vals eff = Inr eff' \<Longrightarrow> k \<in> fst ` set vals \<Longrightarrow> marked eff' k"
proof (induction vals arbitrary: eff)
  case Nil
  then show ?case by simp
next
  case (Cons p vals)
  obtain key v where p: "p = (key, v)" by (cases p)
  from Cons.prems(1) obtain entry where
    a: "append_source (AList.update ''effective_value'' v (entry_of eff key))
          (JStr ''definition_changes'') = Inr entry" and
    r: "apply_values vals (AList.update key entry eff) = Inr eff'"
    by (auto simp: p split: sum.splits)
  show ?case
  proof (cases "key = k")
    case True
    from append_source_sources [OF a] obtain ps where
      "map_of entry ''_sources'' = Some (JList (ps @ [JStr ''definition_changes'']))" by blast
    then have "marked (AList.update key entry eff) k"
      by (auto simp: marked_def update_conv' True)
    from apply_values_keeps_mark [OF r this] show ?thesis .
  next
    case False
    with Cons.prems(2) have "k \<in> fst ` set vals" by (auto simp: p)
    from Cons.IH [OF r this] show ?thesis .
  qed
qed

lemma sourced_Nil: "sourced []"
  by (simp add: sourced_def)

lemma has_sources_Nil: "has_sources []"
  by (simp add: has_sources_def)

text \<open>What a successful merge splits into.\<close>

lemma merge_effective_Inr:
  assumes "merge_effective e chain def_changes = Inr effective"
  obtains merged where "merge_chain e (rev chain) [] = Inr merged"
    and "apply_values (override_values def_changes) merged = Inr effective"
  using assms
  by (auto simp: merge_effective_def override_values_def
        split: sum.splits option.splits json.splits)

section \<open>The profile aggregator loop\<close>











section \<open>The quick-reference loop\<close>

lemma important_distinct: "distinct IMPORTANT_SETTINGS"
  by (simp add: IMPORTANT_SETTINGS_def)

lemma key_settings_loop_other:
  "key_settings_loop effective def_changes ss ks = Inr ks' \<Longrightarrow> s \<notin> set ss \<Longrightarrow>
   map_of ks' s = map_of ks s"
proof (induction ss arbitrary: ks)
  case Nil
  then show ?case by simp
next
  case (Cons x ss)
  from Cons.prems(2) have ne: "s \<noteq> x" and ni: "s \<notin> set ss" by auto
  from Cons.prems(1) Cons.IH [OF _ ni] ne show ?case
    by (auto simp: update_conv' split: option.splits sum.splits)
qed

lemma key_settings_loop_customized:
  "key_settings_loop effective def_changes ss ks = Inr ks' \<Longrightarrow> distinct ss \<Longrightarrow> s \<in> set ss \<Longrightarrow>
   map_of def_changes s = Some v \<Longrightarrow>
   map_of ks' s = Some [(''value'', v), (''source'', JStr ''your_customizations'')]"
proof (induction ss arbitrary: ks)
  case Nil
  then show ?case by simp
next
  case (Cons x ss)
  show ?case
  proof (cases "s = x")
    case True
    with Cons.prems have ni: "s \<notin> set ss" by simp
    from Cons.prems(1) have
      "key_settings_loop effective def_changes ss
         (AList.update s [(''value'', v), (''source'', JStr ''your_customizations'')] ks) = Inr ks'"
      by (simp add: True [symmetric] Cons.prems(4))
    from key_settings_loop_other [OF this ni] show ?thesis by (simp add: update_conv')
  next
    case False
    with Cons.prems have "s \<in> set ss" "distinct ss" by auto
    with Cons.prems(1,4) Cons.IH show ?thesis
      by (auto split: option.splits sum.splits)
  qed
qed

lemma key_settings_loop_inherited:
  "key_settings_loop effective def_changes ss ks = Inr ks' \<Longrightarrow> distinct ss \<Longrightarrow> s \<in> set ss \<Longrightarrow>
   map_of def_changes s = None \<Longrightarrow> map_of effective s = Some info \<Longrightarrow>
   \<exists>entry. effective_report info = Inr entry \<and> map_of ks' s = Some entry"
proof (induction ss arbitrary: ks)
  case Nil
  then show ?case by simp
next
  case (Cons x ss)
  show ?case
  proof (cases "s = x")
    case True
    with Cons.prems have ni: "s \<notin> set ss" by simp
    from Cons.prems(1) obtain entry where
      r: "effective_report info = Inr entry" and
      l: "key_settings_loop effective def_changes ss (AList.update s entry ks) = Inr ks'"
      by (auto simp: True [symmetric] Cons.prems(4,5) split: sum.splits)
    from key_settings_loop_other [OF l ni] r show ?thesis by (simp add: update_conv')
  next
    case False
    with Cons.prems have "s \<in> set ss" "distinct ss" by auto
    with Cons.prems(1,4,5) Cons.IH show ?thesis
      by (auto split: option.splits sum.splits)
  qed
qed

section \<open>The example runs\<close>

lemma build_chain_printer:
  "build_chain (printer_env v) [] (JStr ''creality_ender3pro'') =
     Some (Inr [link_of (printer_env v) (JStr ''creality_ender3pro''),
                link_of (printer_env v) (JStr ''creality_base''),
                link_of (printer_env v) (JStr ''fdmprinter'')])"
proof -
  have p1: "parent (printer_env v) (JStr ''creality_ender3pro'') = JStr ''creality_base''"
    by (simp add: parent_def printer_env_def example_env_def example_def_path_def printer_defs_def
          parse_def_json_def new_result_def dict_update_def creality_ender3pro_json_def py_get_def)
  have p2: "parent (printer_env v) (JStr ''creality_base'') = JStr ''fdmprinter''"
    by (simp add: parent_def printer_env_def example_env_def example_def_path_def printer_defs_def
          parse_def_json_def new_result_def dict_update_def creality_base_json_def py_get_def)
  have p3: "parent (printer_env v) (JStr ''fdmprinter'') = JNull"
    by (simp add: parent_def printer_env_def example_env_def example_def_path_def printer_defs_def
          parse_def_json_def new_result_def dict_update_def fdmprinter_json_def py_get_def)
  have r1: "resolvable (printer_env v) (JStr ''creality_ender3pro'')"
    and r2: "resolvable (printer_env v) (JStr ''creality_base'')"
    and r3: "resolvable (printer_env v) (JStr ''fdmprinter'')"
    by (simp_all add: resolvable_def printer_env_def example_env_def example_def_path_def
          printer_defs_def)
  show ?thesis
    by (simp add: build_chain_step [OF r1] build_chain_step [OF r2] build_chain_step [OF r3]
          p1 p2 p3 build_chain_stop)
qed

lemmas printer_simps =
  printer_env_def example_env_def example_def_path_def printer_defs_def printer_cfgs_def
  base_name_def parse_def_json_def parse_cfg_file_def new_result_def dict_update_def
  section_dict_def link_of_def

lemma printer_layer_ender:
  "layer_settings (printer_env v) (link_of (printer_env v) (JStr ''creality_ender3pro'')) =
     Inr [(''layer_height'', [(''default_value'', JFloat 0.16),
                              (''_source'', JStr ''creality_ender3pro.def.json'')])]"
  by (simp add: layer_settings_def printer_simps creality_ender3pro_json_def
        extract_settings_from_def_def extract_settings_tree_def)

lemma printer_layer_base:
  "layer_settings (printer_env v) (link_of (printer_env v) (JStr ''creality_base'')) =
     Inr [(''machine_heated_bed'', [(''default_value'', JBool True),
                                    (''_source'', JStr ''creality_base.def.json'')])]"
  by (simp add: layer_settings_def printer_simps creality_base_json_def
        extract_settings_from_def_def extract_settings_tree_def)

lemma printer_layer_fdm:
  "layer_settings (printer_env v) (link_of (printer_env v) (JStr ''fdmprinter'')) =
     Inr [(''layer_height'', [(''default_value'', JFloat 0.2), (''type'', JStr ''float''),
                              (''unit'', JStr ''mm'')])]"
  by (simp add: layer_settings_def printer_simps fdmprinter_json_def
        extract_settings_from_def_def extract_settings_tree_def extract_node_def
        setting_info_def props_def)

lemma printer_changes_parsed:
  "parse_cfg_file (printer_env v) ''definition_changes/Ender_settings.inst.cfg'' = printer_changes v"
  by (simp add: printer_simps printer_changes_def)

lemma printer_merge:
  "merge_effective (printer_env v) (printer_chain v) (printer_changes v) = Inr (printer_effective v)"
proof -
  have "merge_chain (printer_env v) (rev (printer_chain v)) [] =
      Inr [(''layer_height'',
            [(''_sources'', JList [JStr ''fdmprinter'', JStr ''creality_ender3pro'']),
             (''default_value'', JFloat 0.16), (''type'', JStr ''float''), (''unit'', JStr ''mm''),
             (''_source'', JStr ''creality_ender3pro.def.json'')]),
           (''machine_heated_bed'',
            [(''_sources'', JList [JStr ''creality_base'']),
             (''default_value'', JBool True),
             (''_source'', JStr ''creality_base.def.json'')])]"
    by (simp add: printer_chain_def merge_chain_layer printer_layer_ender printer_layer_base
          printer_layer_fdm entry_of_def append_source_def dict_update_def
          del: merge_chain.simps(2))
       (simp add: link_of_def)
  then show ?thesis
    by (simp add: merge_effective_def printer_changes_def printer_effective_def entry_of_def
          append_source_def)
qed

lemma printer_machine:
  "extract_machine (printer_env v) ''Ender'' =
     Some (Inr \<lparr>inheritance_chain = printer_chain v,
                effective_settings = printer_effective v,
                definition_changes = printer_changes v,
                error_marker = None,
                instance_cfg = Some (parse_cfg_file (printer_env v) ''machine_instances/Ender.global.cfg''),
                container_stack = Some [(''6'', JStr ''Ender_settings''),
                                        (''7'', JStr ''creality_ender3pro'')]\<rparr>)"
proof -
  have g: "machine_instances_glob (printer_env v) = [''machine_instances/Ender.global.cfg'']"
    and n: "instance_name (printer_env v) ''machine_instances/Ender.global.cfg'' = ''Ender''"
    and dg: "definition_changes_glob (printer_env v) = [''definition_changes/Ender_settings.inst.cfg'']"
    by (simp_all add: printer_env_def example_env_def)
  have c: "get_dict (parse_cfg_file (printer_env v) ''machine_instances/Ender.global.cfg'') ''containers'' =
      Inr [(''6'', JStr ''Ender_settings''), (''7'', JStr ''creality_ender3pro'')]"
    by (simp add: printer_simps get_dict_def)
  have l: "load_definition_changes (printer_env v)
             [(''6'', JStr ''Ender_settings''), (''7'', JStr ''creality_ender3pro'')] =
           Inr (printer_changes v)"
    by (simp add: load_definition_changes_def dg printer_changes_parsed printer_changes_def
          get_dict_def)
  show ?thesis
    using build_chain_printer [of v] printer_merge [of v]
    by (simp add: extract_machine_def g n c l printer_chain_def)
qed

lemma printer_walks:
  "\<forall>l \<in> set (printer_chain v). \<exists>s. layer_settings (printer_env v) l = Inr s \<and> plain s"
  by (simp add: printer_chain_def printer_layer_ender printer_layer_base printer_layer_fdm
        plain_def)

lemma printer_override_values:
  "override_values (printer_changes v) = [(''layer_height'', JStr v)]"
  by (simp add: override_values_def printer_changes_def)

lemmas reset_simps =
  reset_env_def example_env_def example_def_path_def reset_defs_def
  base_name_def parse_def_json_def new_result_def dict_update_def link_of_def

lemma reset_layer_custom:
  "layer_settings reset_env (link_of reset_env (JStr ''custom'')) =
     Inr [(''layer_height'', [(''default_value'', JFloat 0.16), (''_sources'', JList []),
                              (''_source'', JStr ''custom.def.json'')])]"
  by (simp add: layer_settings_def reset_simps
        extract_settings_from_def_def extract_settings_tree_def)

lemma reset_layer_fdm:
  "layer_settings reset_env (link_of reset_env (JStr ''fdmprinter'')) =
     Inr [(''layer_height'', [(''default_value'', JFloat 0.2), (''type'', JStr ''float''),
                              (''unit'', JStr ''mm'')])]"
  by (simp add: layer_settings_def reset_simps fdmprinter_json_def
        extract_settings_from_def_def extract_settings_tree_def extract_node_def
        setting_info_def props_def)

lemmas cycle_simps =
  cycle_env_def example_env_def example_def_path_def cycle_defs_def
  base_name_def parse_def_json_def new_result_def dict_update_def

lemma cycle_path: "(parent cycle_env ^^ n) (JStr ''A'') \<in> {JStr ''A'', JStr ''B''}"
proof (induction n)
  case 0
  then show ?case by simp
next
  case (Suc n)
  have "parent cycle_env (JStr ''A'') = JStr ''B''" "parent cycle_env (JStr ''B'') = JStr ''A''"
    by (simp_all add: parent_def cycle_simps py_get_def)
  with Suc show ?case by auto
qed

lemmas tuned_simps =
  tuned_env_def example_env_def example_def_path_def tuned_defs_def
  base_name_def parse_def_json_def new_result_def dict_update_def

lemma reader_json_marks_failure:
  "json_files e filepath = NoFile \<or> json_files e filepath = BadFile msg \<Longrightarrow>
   \<exists>result. parse_def_json e filepath = Inr result \<and>
     map_of result ''_error'' \<noteq> None \<and> map_of result ''_filepath'' = Some (JStr filepath)"
  by (auto simp: parse_def_json_def new_result_def)

lemma reader_cfg_marks_failure:
  "cfg_files e filepath = NoCfg \<or> cfg_files e filepath = CfgBad msg \<Longrightarrow>
   map_of (parse_cfg_file e filepath) ''_error'' \<noteq> None \<and>
   map_of (parse_cfg_file e filepath) ''_filepath'' = Some (JStr filepath)"
  by (auto simp: parse_cfg_file_def new_result_def)


lemma printer_key_settings:
  "extract_key_settings (Some (printer_result v)) =
     Inr [(''layer_height'', [(''value'', JStr v), (''source'', JStr ''your_customizations'')]),
          (''machine_heated_bed'', [(''value'', JBool True), (''source'', JStr ''creality_base'')])]"
  by (simp add: extract_key_settings_def printer_result_def printer_changes_def get_dict_def
        IMPORTANT_SETTINGS_def printer_effective_def effective_report_def py_or_def py_get_def)

section \<open>The claims\<close>

text \<open>
  Claim C1, amended. The claim fails when a layer's setting carries a field that is itself
  called \<open>_sources\<close>: the field replaces the provenance list collected so far. Take a chain
  of N links whose documents the walker accepts, none giving a setting such a field, and a
  definition-changes document whose \<open>values\<close>, if any, are a dict. Then the merge returns;
  its loop runs over the N links; and the provenance list of every key names, in merge
  order, exactly the links whose document defines the key, followed by
  \<open>definition_changes\<close> when the override layer defines it: its length is the number of
  defining layers, plus one for the override.
\<close>

theorem provenance_counts_layers:
  assumes walks: "\<forall>l \<in> set chain. \<exists>s. layer_settings e l = Inr s \<and> plain s"
    and vals: "\<forall>v. map_of def_changes ''values'' = Some v \<longrightarrow>
                 (\<exists>vals. v = JDict vals \<and> distinct (map fst vals))"
  shows "\<exists>effective.
           merge_effective e chain def_changes = Inr effective \<and>
           length (rev chain) = length chain \<and>
           (\<forall>key. provenance effective key =
               map link_name (filter (\<lambda>l. key \<in> layer_keys e l) (rev chain)) @
               (if key \<in> fst ` set (override_values def_changes)
                then [JStr ''definition_changes''] else []) \<and>
             length (provenance effective key) =
               defining_layers e chain key +
               (if key \<in> fst ` set (override_values def_changes) then 1 else 0))"
proof -
  from walks have walks': "\<forall>l \<in> set (rev chain). \<exists>s. layer_settings e l = Inr s \<and> plain s"
    by simp
  from merge_chain_returns [OF walks' has_sources_Nil] obtain merged where
    c: "merge_chain e (rev chain) [] = Inr merged" by blast
  from walks have clean: "\<forall>l \<in> set (rev chain). \<forall>s. layer_settings e l = Inr s \<longrightarrow> plain s"
    by auto
  from merge_chain_provenance [OF c has_sources_Nil clean]
  have h: "has_sources merged" and
    p: "\<And>key. provenance merged key =
          map link_name (filter (\<lambda>l. key \<in> layer_keys e l) (rev chain))"
    by (auto simp: provenance_def)
  from vals have dist: "distinct (map fst (override_values def_changes))"
    by (auto simp: override_values_def split: option.splits json.splits)
  from apply_values_provenance [OF dist h] obtain effective where
    a: "apply_values (override_values def_changes) merged = Inr effective" and
    q: "\<And>key. provenance effective key = provenance merged key @
          (if key \<in> fst ` set (override_values def_changes) then [JStr ''definition_changes''] else [])"
    by blast
  from vals a have m: "merge_effective e chain def_changes = Inr effective"
    by (auto simp: merge_effective_def c override_values_def split: option.splits json.splits)
  have n: "length (filter (\<lambda>l. key \<in> layer_keys e l) (rev chain)) = defining_layers e chain key"
    for key
    by (simp add: defining_layers_def flip: rev_filter)
  from m n show ?thesis by (simp add: p q)
qed

theorem provenance_counts_layers_witness:
  "defining_layers (printer_env ''0.12'') (printer_chain ''0.12'') ''layer_height'' = 2 \<and>
   merge_effective (printer_env ''0.12'') (printer_chain ''0.12'') (printer_changes ''0.12'') =
     Inr (printer_effective ''0.12'') \<and>
   length (provenance (printer_effective ''0.12'') ''layer_height'') = 3"
proof -
  have vals: "\<forall>v. map_of (printer_changes ''0.12'') ''values'' = Some v \<longrightarrow>
                 (\<exists>vals. v = JDict vals \<and> distinct (map fst vals))"
    by (simp add: printer_changes_def)
  have n: "defining_layers (printer_env ''0.12'') (printer_chain ''0.12'') ''layer_height'' = 2"
    by (simp add: defining_layers_def printer_chain_def layer_keys_def printer_layer_ender
          printer_layer_base printer_layer_fdm)
  from provenance_counts_layers [OF printer_walks vals] obtain effective where
    m: "merge_effective (printer_env ''0.12'') (printer_chain ''0.12'') (printer_changes ''0.12'') =
          Inr effective" and
    l: "length (provenance effective ''layer_height'') =
          defining_layers (printer_env ''0.12'') (printer_chain ''0.12'') ''layer_height'' +
          (if ''layer_height'' \<in> fst ` set (override_values (printer_changes ''0.12'')) then 1 else 0)"
    by blast
  from m have e: "effective = printer_effective ''0.12''"
    by (simp add: printer_merge)
  from l n have "length (provenance effective ''layer_height'') = 3"
    by (simp add: printer_override_values)
  with n m e show ?thesis by simp
qed

text \<open>
  The claim as stated fails: both links of this chain define \<open>layer_height\<close>, and its
  provenance list has one element.
\<close>

theorem provenance_counts_layers_counterexample:
  "build_chain reset_env [] (JStr ''custom'') = Some (Inr reset_chain) \<and>
   defining_layers reset_env reset_chain ''layer_height'' = 2 \<and>
   merge_effective reset_env reset_chain [] =
     Inr [(''layer_height'',
           [(''_sources'', JList [JStr ''custom'']), (''default_value'', JFloat 0.16),
            (''type'', JStr ''float''), (''unit'', JStr ''mm''),
            (''_source'', JStr ''custom.def.json'')])]"
proof -
  have p1: "parent reset_env (JStr ''custom'') = JStr ''fdmprinter''"
    by (simp add: parent_def reset_simps py_get_def)
  have p2: "parent reset_env (JStr ''fdmprinter'') = JNull"
    by (simp add: parent_def reset_simps fdmprinter_json_def py_get_def)
  have r1: "resolvable reset_env (JStr ''custom'')"
    and r2: "resolvable reset_env (JStr ''fdmprinter'')"
    by (simp_all add: resolvable_def reset_simps)
  have c: "build_chain reset_env [] (JStr ''custom'') = Some (Inr reset_chain)"
    by (simp add: build_chain_step [OF r1] build_chain_step [OF r2] p1 p2
          build_chain_stop reset_chain_def)
  have n: "defining_layers reset_env reset_chain ''layer_height'' = 2"
    by (simp add: defining_layers_def reset_chain_def layer_keys_def reset_layer_custom
          reset_layer_fdm)
  have m: "merge_effective reset_env reset_chain [] =
     Inr [(''layer_height'',
           [(''_sources'', JList [JStr ''custom'']), (''default_value'', JFloat 0.16),
            (''type'', JStr ''float''), (''unit'', JStr ''mm''),
            (''_source'', JStr ''custom.def.json'')])]"
    by (simp add: merge_effective_def reset_chain_def merge_chain_layer reset_layer_custom
          reset_layer_fdm entry_of_def append_source_def dict_update_def
          del: merge_chain.simps(2))
       (simp add: link_of_def)
  from c n m show ?thesis by simp
qed

text \<open>
  Claim C2, amended. Let a link of the chain define key \<open>K\<close> with default value \<open>D\<close>, no
  more specific link of the chain setting a default for \<open>K\<close>, and let the override layer
  define \<open>K\<close> with value \<open>V\<close>. Then in a merge that returns, the entry of \<open>K\<close> has
  \<open>default_value\<close> \<open>D\<close>, \<open>effective_value\<close> \<open>V\<close>, and a provenance list that ends with
  \<open>definition_changes\<close>.
\<close>

theorem override_keeps_default:
  assumes m: "merge_effective e chain def_changes = Inr effective"
    and pos: "chain = specific @ l # general"
    and s: "layer_settings e l = Inr s"
    and k: "map_of s key = Some v"
    and dv: "map_of v ''default_value'' = Some D"
    and no: "\<forall>l' \<in> set specific. \<forall>s' v'. layer_settings e l' = Inr s' \<longrightarrow>
               map_of s' key = Some v' \<longrightarrow> map_of v' ''default_value'' = None"
    and dist: "distinct (map fst (override_values def_changes))"
    and ov: "map_of (override_values def_changes) key = Some V"
  shows "\<exists>entry ps. map_of effective key = Some entry \<and>
           map_of entry ''default_value'' = Some D \<and>
           map_of entry ''effective_value'' = Some V \<and>
           map_of entry ''_sources'' = Some (JList ps) \<and> ps \<noteq> [] \<and>
           last ps = JStr ''definition_changes''"
proof -
  from m obtain merged where
    c: "merge_chain e (rev chain) [] = Inr merged" and
    a: "apply_values (override_values def_changes) merged = Inr effective"
    by (rule merge_effective_Inr)
  from c pos have c': "merge_chain e (rev general @ l # rev specific) [] = Inr merged"
    by simp
  from no have no': "\<forall>l' \<in> set (rev specific). \<forall>s' v'. layer_settings e l' = Inr s' \<longrightarrow>
               map_of s' key = Some v' \<longrightarrow> map_of v' ''default_value'' = None"
    by simp
  have f: "field merged key ''default_value'' = Some D"
    by (rule merge_chain_most_specific [OF c' s k dv _ no']) simp
  from apply_values_key [OF a dist ov] obtain entry where
    ap: "append_source (AList.update ''effective_value'' V (entry_of merged key))
           (JStr ''definition_changes'') = Inr entry" and
    e: "map_of effective key = Some entry" by blast
  from f have d: "map_of (entry_of merged key) ''default_value'' = Some D"
    by (auto simp: field_def entry_of_def split: option.splits)
  have 1: "map_of entry ''default_value'' = Some D"
    using append_source_field [OF ap, of "''default_value''"] d by (simp add: update_conv')
  have 2: "map_of entry ''effective_value'' = Some V"
    using append_source_field [OF ap, of "''effective_value''"] by (simp add: update_conv')
  from append_source_sources [OF ap] obtain ps where
    3: "map_of entry ''_sources'' = Some (JList (ps @ [JStr ''definition_changes'']))" by blast
  from e 1 2 3 show ?thesis by auto
qed

text \<open>
  Where \<open>tuned\<close> inherits \<open>fdmprinter\<close> and overrides \<open>layer_height\<close> with a \<open>value\<close>
  field only, the default of \<open>fdmprinter\<close> is the one the merged entry keeps.
\<close>

theorem override_keeps_default_witness:
  "tuned_chain = [link_of tuned_env (JStr ''tuned'')] @ link_of tuned_env (JStr ''fdmprinter'') # [] \<and>
   layer_keys tuned_env (link_of tuned_env (JStr ''tuned'')) = {''layer_height''} \<and>
   merge_effective tuned_env tuned_chain (printer_changes ''0.12'') = Inr tuned_effective \<and>
   (\<exists>entry ps. map_of tuned_effective ''layer_height'' = Some entry \<and>
      map_of entry ''default_value'' = Some (JFloat 0.2) \<and>
      map_of entry ''effective_value'' = Some (JStr ''0.12'') \<and>
      map_of entry ''_sources'' = Some (JList ps) \<and> ps \<noteq> [] \<and>
      last ps = JStr ''definition_changes'')"
proof -
  let ?fdm = "[(''layer_height'', [(''default_value'', JFloat 0.2), (''type'', JStr ''float''),
                              (''unit'', JStr ''mm'')])]"
  let ?tuned = "[(''layer_height'', [(''value'', JFloat 0.1), (''_source'', JStr ''tuned.def.json'')])]"
  have pos: "tuned_chain =
      [link_of tuned_env (JStr ''tuned'')] @ link_of tuned_env (JStr ''fdmprinter'') # []"
    by (simp add: tuned_chain_def)
  have s: "layer_settings tuned_env (link_of tuned_env (JStr ''fdmprinter'')) = Inr ?fdm"
    by (simp add: layer_settings_def link_of_def tuned_simps fdmprinter_json_def
          extract_settings_from_def_def extract_settings_tree_def extract_node_def
          setting_info_def props_def)
  have t: "layer_settings tuned_env (link_of tuned_env (JStr ''tuned'')) = Inr ?tuned"
    by (simp add: layer_settings_def link_of_def tuned_simps tuned_json_def
          extract_settings_from_def_def extract_settings_tree_def)
  have keys: "layer_keys tuned_env (link_of tuned_env (JStr ''tuned'')) = {''layer_height''}"
    by (simp add: layer_keys_def t)
  have k: "map_of ?fdm ''layer_height'' =
           Some [(''default_value'', JFloat 0.2), (''type'', JStr ''float''), (''unit'', JStr ''mm'')]"
    by simp
  have dv: "map_of [(''default_value'', JFloat 0.2), (''type'', JStr ''float''),
                    (''unit'', JStr ''mm'')] ''default_value'' = Some (JFloat 0.2)"
    by simp
  have no: "\<forall>l' \<in> set [link_of tuned_env (JStr ''tuned'')]. \<forall>s' v'.
               layer_settings tuned_env l' = Inr s' \<longrightarrow>
               map_of s' ''layer_height'' = Some v' \<longrightarrow> map_of v' ''default_value'' = None"
    by (auto simp: t)
  have dist: "distinct (map fst (override_values (printer_changes ''0.12'')))"
    by (simp add: printer_override_values)
  have ov: "map_of (override_values (printer_changes ''0.12'')) ''layer_height'' = Some (JStr ''0.12'')"
    by (simp add: printer_override_values)
  have c: "merge_chain tuned_env (rev tuned_chain) [] =
      Inr [(''layer_height'',
            [(''_sources'', JList [JStr ''fdmprinter'', JStr ''tuned'']),
             (''default_value'', JFloat 0.2), (''type'', JStr ''float''), (''unit'', JStr ''mm''),
             (''value'', JFloat 0.1), (''_source'', JStr ''tuned.def.json'')])]"
    by (simp add: tuned_chain_def merge_chain_layer s t entry_of_def append_source_def
          dict_update_def del: merge_chain.simps(2))
       (simp add: link_of_def)
  then have m: "merge_effective tuned_env tuned_chain (printer_changes ''0.12'') = Inr tuned_effective"
    by (simp add: merge_effective_def printer_changes_def tuned_effective_def entry_of_def
          append_source_def)
  from override_keeps_default [OF m pos s k dv no dist ov] pos keys m
  show ?thesis by blast
qed

text \<open>
  Without the condition on the more specific links the statement fails: \<open>fdmprinter\<close>
  defines \<open>layer_height\<close> with default 0.2 and the override layer defines \<open>layer_height\<close>,
  yet the merged default is the 0.16 of the more specific \<open>creality_ender3pro\<close>.
\<close>

theorem general_default_counterexample:
  "link_of (printer_env ''0.12'') (JStr ''fdmprinter'') \<in> set (printer_chain ''0.12'') \<and>
   layer_settings (printer_env ''0.12'') (link_of (printer_env ''0.12'') (JStr ''fdmprinter'')) =
     Inr [(''layer_height'', [(''default_value'', JFloat 0.2), (''type'', JStr ''float''),
                              (''unit'', JStr ''mm'')])] \<and>
   override_values (printer_changes ''0.12'') = [(''layer_height'', JStr ''0.12'')] \<and>
   merge_effective (printer_env ''0.12'') (printer_chain ''0.12'') (printer_changes ''0.12'') =
     Inr (printer_effective ''0.12'') \<and>
   field (printer_effective ''0.12'') ''layer_height'' ''default_value'' = Some (JFloat 0.16) \<and>
   field (printer_effective ''0.12'') ''layer_height'' ''effective_value'' = Some (JStr ''0.12'')"
  by (simp add: printer_layer_fdm printer_override_values printer_merge)
     (simp add: printer_chain_def printer_effective_def field_def)

text \<open>
  Claim C3, amended. For the chain fdmprinter, creality_base, creality_ender3pro of the
  example, where creality_base does not mention \<open>layer_height\<close>, the resolved entry of
  \<open>layer_height\<close> has \<open>default_value\<close> 0.16, \<open>effective_value\<close> the text \<open>0.12\<close> read from
  the definition-changes file, and provenance fdmprinter, creality_ender3pro,
  definition_changes: a link that does not define the key is not recorded.
\<close>

theorem example_resolution:
  "map (link_name) (printer_chain ''0.12'') =
     [JStr ''creality_ender3pro'', JStr ''creality_base'', JStr ''fdmprinter''] \<and>
   layer_keys (printer_env ''0.12'') (link_of (printer_env ''0.12'') (JStr ''creality_base'')) =
     {''machine_heated_bed''} \<and>
   machine_field (extract_machine (printer_env ''0.12'') ''Ender'') ''layer_height'' ''default_value'' =
     Some (Inr (Some (JFloat 0.16))) \<and>
   machine_field (extract_machine (printer_env ''0.12'') ''Ender'') ''layer_height'' ''effective_value'' =
     Some (Inr (Some (JStr ''0.12''))) \<and>
   machine_provenance (extract_machine (printer_env ''0.12'') ''Ender'') ''layer_height'' =
     Some (Inr [JStr ''fdmprinter'', JStr ''creality_ender3pro'', JStr ''definition_changes''])"
  by (simp add: printer_machine machine_provenance_def machine_field_def printer_effective_def
        provenance_def field_def printer_chain_def link_of_def layer_keys_def
        printer_layer_base [unfolded link_of_def])

text \<open>The provenance that the claim states is not the one computed.\<close>

theorem example_provenance_counterexample:
  "machine_provenance (extract_machine (printer_env ''0.12'') ''Ender'') ''layer_height'' \<noteq>
     Some (Inr [JStr ''fdmprinter'', JStr ''creality_base'', JStr ''creality_ender3pro'',
                JStr ''definition_changes''])"
  by (simp add: printer_machine machine_provenance_def printer_effective_def provenance_def)

text \<open>
  Claim C4, amended. The resolver has no visited-identifier check and reports no cycle: its
  loop ends (returning the chain, or raising where a path cannot be examined) exactly when
  the path of \<open>inherits\<close> references from the starting identifier reaches, after finitely
  many steps, an identifier that is empty or absent, or whose document is missing or cannot
  be examined. On a cycle it never ends.
\<close>

theorem chain_ends_iff_path_ends:
  "(\<exists>chain'. build_chain e chain current_def = Some chain') \<longleftrightarrow>
   (\<exists>n. \<not> resolvable e ((parent e ^^ n) current_def))"
  using build_chain_bounded build_chain_returns_bounded by blast

theorem chain_ends_iff_path_ends_witness:
  "\<exists>chain'. build_chain cycle_env [] (JStr ''C'') = Some chain'"
proof -
  have "\<not> resolvable cycle_env ((parent cycle_env ^^ 0) (JStr ''C''))"
    by (simp add: resolvable_def cycle_simps)
  then have "\<exists>n. \<not> resolvable cycle_env ((parent cycle_env ^^ n) (JStr ''C''))" by blast
  with chain_ends_iff_path_ends [of cycle_env "[]" "JStr ''C''"] show ?thesis by blast
qed

text \<open>Where A inherits B and B inherits A, the loop started at A does not end.\<close>

theorem cyclic_chain_counterexample:
  "build_chain cycle_env [] (JStr ''A'') = None"
proof (rule ccontr)
  assume "build_chain cycle_env [] (JStr ''A'') \<noteq> None"
  then obtain c where "build_chain cycle_env [] (JStr ''A'') = Some c" by blast
  from build_chain_returns_bounded [OF this] obtain n where
    n: "\<not> resolvable cycle_env ((parent cycle_env ^^ n) (JStr ''A''))" by blast
  have "resolvable cycle_env (JStr ''A'')" "resolvable cycle_env (JStr ''B'')"
    by (simp_all add: resolvable_def cycle_simps)
  with cycle_path [of n] n show False by auto
qed

text \<open>
  Claim C5. The map that a merge returns has one entry for each key defined by a link of
  the chain or by the override layer, and no other; every entry has a non-empty provenance
  list; and the provenance of every key of the override layer ends with
  \<open>definition_changes\<close>.
\<close>

theorem effective_map_complete:
  assumes m: "merge_effective e chain def_changes = Inr effective"
  shows "distinct (map fst effective) \<and>
         fst ` set effective =
           (\<Union>l \<in> set chain. layer_keys e l) \<union> fst ` set (override_values def_changes) \<and>
         (\<forall>key entry. map_of effective key = Some entry \<longrightarrow>
            (\<exists>ps. map_of entry ''_sources'' = Some (JList ps) \<and> ps \<noteq> [] \<and>
                  (key \<in> fst ` set (override_values def_changes) \<longrightarrow>
                     last ps = JStr ''definition_changes'')))"
proof -
  from m obtain merged where
    c: "merge_chain e (rev chain) [] = Inr merged" and
    a: "apply_values (override_values def_changes) merged = Inr effective"
    by (rule merge_effective_Inr)
  have d: "distinct (map fst effective)"
    using apply_values_distinct [OF a] merge_chain_distinct [OF c] by simp
  have k: "fst ` set effective =
      (\<Union>l \<in> set chain. layer_keys e l) \<union> fst ` set (override_values def_changes)"
    using apply_values_keys [OF a] merge_chain_keys [OF c] by simp
  have s: "sourced effective"
    using apply_values_sourced [OF a] merge_chain_sourced [OF c] sourced_Nil by simp
  have "\<exists>ps. map_of entry ''_sources'' = Some (JList ps) \<and> ps \<noteq> [] \<and>
          (key \<in> fst ` set (override_values def_changes) \<longrightarrow> last ps = JStr ''definition_changes'')"
    if g: "map_of effective key = Some entry" for key entry
  proof (cases "key \<in> fst ` set (override_values def_changes)")
    case True
    from apply_values_marks [OF a True] g show ?thesis by (auto simp: marked_def)
  next
    case False
    with s g show ?thesis by (auto simp: sourced_def)
  qed
  with d k show ?thesis by blast
qed

theorem effective_map_complete_witness:
  "distinct (map fst (printer_effective ''0.12'')) \<and>
   fst ` set (printer_effective ''0.12'') = {''layer_height'', ''machine_heated_bed''} \<and>
   (\<exists>ps. map_of [(''_sources'', JList [JStr ''fdmprinter'', JStr ''creality_ender3pro'',
                              JStr ''definition_changes'']),
        (''default_value'', JFloat 0.16), (''type'', JStr ''float''), (''unit'', JStr ''mm''),
        (''_source'', JStr ''creality_ender3pro.def.json''),
        (''effective_value'', JStr ''0.12'')] ''_sources'' = Some (JList ps) \<and> ps \<noteq> [] \<and>
        last ps = JStr ''definition_changes'')"
proof -
  let ?entry = "[(''_sources'', JList [JStr ''fdmprinter'', JStr ''creality_ender3pro'',
                              JStr ''definition_changes'']),
        (''default_value'', JFloat 0.16), (''type'', JStr ''float''), (''unit'', JStr ''mm''),
        (''_source'', JStr ''creality_ender3pro.def.json''),
        (''effective_value'', JStr ''0.12'')]"
  have k: "(\<Union>l \<in> set (printer_chain ''0.12''). layer_keys (printer_env ''0.12'') l) \<union>
           fst ` set (override_values (printer_changes ''0.12'')) = {''layer_height'', ''machine_heated_bed''}"
    by (auto simp: printer_chain_def layer_keys_def printer_layer_ender printer_layer_base
          printer_layer_fdm printer_override_values)
  have e: "map_of (printer_effective ''0.12'') ''layer_height'' = Some ?entry"
    by (simp add: printer_effective_def)
  have o: "''layer_height'' \<in> fst ` set (override_values (printer_changes ''0.12''))"
    by (simp add: printer_override_values)
  from effective_map_complete [OF printer_merge [of "''0.12''"]]
  have 1: "distinct (map fst (printer_effective ''0.12''))"
    and 2: "fst ` set (printer_effective ''0.12'') =
           (\<Union>l \<in> set (printer_chain ''0.12''). layer_keys (printer_env ''0.12'') l) \<union>
           fst ` set (override_values (printer_changes ''0.12''))"
    and 3: "\<forall>key entry. map_of (printer_effective ''0.12'') key = Some entry \<longrightarrow>
            (\<exists>ps. map_of entry ''_sources'' = Some (JList ps) \<and> ps \<noteq> [] \<and>
                  (key \<in> fst ` set (override_values (printer_changes ''0.12'')) \<longrightarrow>
                     last ps = JStr ''definition_changes''))"
    by blast+
  from 3 e o have "\<exists>ps. map_of ?entry ''_sources'' = Some (JList ps) \<and> ps \<noteq> [] \<and>
        last ps = JStr ''definition_changes''"
    by blast
  with 1 2 k show ?thesis by simp
qed

text \<open>
  Claim C6, where the code fails it. The resolver asks \<open>def_path.exists()\<close> outside any
  \<open>try\<close>, and \<open>exists\<close> raises when the path cannot be examined. A definition that
  declares a parent of 300 characters with no backing document, on a file system that
  refuses such a name, does not end the chain: the error leaves the resolver and the
  extractor, and no effective settings are returned. (Where the file system answers that
  the parent's document is absent, the chain does end with the current link:
  \<open>build_chain_missing_parent\<close>, and the merged map holds every key of the chain's links:
  \<open>merge_chain_keys\<close>.)
\<close>

theorem unexaminable_parent_raises:
  "resolvable long_env (JStr ''creality_ender3pro'') \<and>
   parent long_env (JStr ''creality_ender3pro'') = JStr long_name \<and>
   json_files long_env (def_path long_env (JStr long_name)) = NoStat \<and>
   build_chain long_env [] (JStr ''creality_ender3pro'') = Some (Inl OSError) \<and>
   extract_machine long_env ''Ender'' = Some (Inl OSError)"
proof -
  have len: "length (def_path long_env (JStr long_name)) = 314"
    by (simp add: long_env_def example_env_def example_def_path_def long_name_def)
  have r: "resolvable long_env (JStr ''creality_ender3pro'')"
    by (simp add: resolvable_def long_env_def example_env_def example_def_path_def
          long_defs_def)
  have p: "parent long_env (JStr ''creality_ender3pro'') = JStr long_name"
    by (simp add: parent_def parse_def_json_def long_env_def example_env_def
          example_def_path_def long_defs_def long_parent_json_def py_get_def new_result_def
          dict_update_def)
  have t: "truthy (JStr long_name)"
    by (simp add: long_name_def)
  have s: "json_files long_env (def_path long_env (JStr long_name)) = NoStat"
    using len by (simp add: long_env_def example_env_def long_defs_def)
  have c: "build_chain long_env [] (JStr ''creality_ender3pro'') = Some (Inl OSError)"
    by (simp add: build_chain_step [OF r] p build_chain_raises [OF t s])
  have g: "machine_instances_glob long_env = [''machine_instances/Ender.global.cfg'']"
    and n: "instance_name long_env ''machine_instances/Ender.global.cfg'' = ''Ender''"
    and dg: "definition_changes_glob long_env = [''definition_changes/Ender_settings.inst.cfg'']"
    by (simp_all add: long_env_def example_env_def)
  have k: "get_dict (parse_cfg_file long_env ''machine_instances/Ender.global.cfg'') ''containers'' =
      Inr [(''6'', JStr ''Ender_settings''), (''7'', JStr ''creality_ender3pro'')]"
    by (simp add: long_env_def example_env_def printer_cfgs_def parse_cfg_file_def
          new_result_def section_dict_def get_dict_def)
  have l: "\<exists>dc. load_definition_changes long_env
             [(''6'', JStr ''Ender_settings''), (''7'', JStr ''creality_ender3pro'')] = Inr dc"
    by (simp add: load_definition_changes_def dg long_env_def example_env_def printer_cfgs_def
          parse_cfg_file_def new_result_def section_dict_def get_dict_def)
  then obtain dc where l': "load_definition_changes long_env
             [(''6'', JStr ''Ender_settings''), (''7'', JStr ''creality_ender3pro'')] = Inr dc"
    by blast
  have m: "extract_machine long_env ''Ender'' = Some (Inl OSError)"
    using c by (simp add: extract_machine_def g n k l')
  from r p s c m show ?thesis by simp
qed

text \<open>
  Claim C7, amended. Take a definition document that the reader has parsed from its file
  and that has no top-level \<open>_filename\<close> key of its own, whose overrides are all dicts,
  and a key that the walk of the \<open>settings\<close> tree has extracted (with entry \<open>base\<close>) and
  that the \<open>overrides\<close> map holds too (with fields \<open>override\<close>). Then the walker returns,
  and its entry for the key is \<open>base\<close> updated field by field with \<open>override\<close>, the
  override's fields winning, and stamped with one \<open>_source\<close> value: the name of the file
  the document was read from.
\<close>

theorem walker_merges_settings_and_overrides:
  assumes doc: "json_files e filepath = JsonFile data"
    and own: "''_filename'' \<notin> fst ` set data"
    and parsed: "parse_def_json e filepath = Inr def_data"
    and tree: "extract_settings_tree def_data = Inr st"
    and base: "map_of st key = Some base"
    and ovs: "map_of def_data ''overrides'' = Some (JDict overrides)"
    and dist: "distinct (map fst overrides)"
    and dicts: "\<forall>v \<in> snd ` set overrides. \<exists>d. v = JDict d"
    and ov: "map_of overrides key = Some (JDict override)"
    and dist_ov: "distinct (map fst override)"
  shows "\<exists>res entry.
           extract_settings_from_def def_data = Inr res \<and>
           map_of res key = Some entry \<and>
           entry = AList.update ''_source'' (JStr (path_name e filepath))
                     (dict_update base override) \<and>
           (\<forall>f. map_of entry f =
                  (if f = ''_source'' then Some (JStr (path_name e filepath))
                   else case map_of override f of None \<Rightarrow> map_of base f | Some v \<Rightarrow> Some v))"
proof -
  from parsed parse_def_json_filename(1) [OF doc]
  have d: "def_data = dict_update (new_result e filepath) data" by simp
  from parse_def_json_filename(2) [OF doc own] d
  have fname: "map_of def_data ''_filename'' = Some (JStr (path_name e filepath))" by simp
  from walker_entry [OF tree base ovs dist dicts ov fname] obtain res where
    ex: "extract_settings_from_def def_data = Inr res" and
    entry: "map_of res key =
      Some (AList.update ''_source'' (JStr (path_name e filepath)) (dict_update base override))"
    by blast
  have fields: "map_of (AList.update ''_source'' (JStr (path_name e filepath))
                   (dict_update base override)) f =
          (if f = ''_source'' then Some (JStr (path_name e filepath))
           else case map_of override f of None \<Rightarrow> map_of base f | Some v \<Rightarrow> Some v)" for f
    by (simp add: update_conv' map_of_dict_update [OF dist_ov])
  from ex entry fields show ?thesis by blast
qed

theorem walker_merges_settings_and_overrides_witness:
  "json_files ender_env ''defs/creality_ender3pro.def.json'' = JsonFile ender_json \<and>
   path_name ender_env ''defs/creality_ender3pro.def.json'' = ''creality_ender3pro.def.json'' \<and>
   (\<exists>def_data res.
      parse_def_json ender_env ''defs/creality_ender3pro.def.json'' = Inr def_data \<and>
      extract_settings_from_def def_data = Inr res \<and>
      map_of res ''layer_height'' =
        Some [(''default_value'', JFloat 0.16), (''type'', JStr ''float''),
              (''unit'', JStr ''mm''), (''_source'', JStr ''creality_ender3pro.def.json'')])"
proof -
  let ?p = "''defs/creality_ender3pro.def.json''"
  let ?d = "dict_update (new_result ender_env ?p) ender_json"
  let ?base = "[(''default_value'', JFloat 0.2), (''type'', JStr ''float''), (''unit'', JStr ''mm'')]"
  let ?ovs = "[(''layer_height'', JDict [(''default_value'', JFloat 0.16)])]"
  have doc: "json_files ender_env ?p = JsonFile ender_json"
    by (simp add: ender_env_def example_env_def)
  have name: "path_name ender_env ?p = ''creality_ender3pro.def.json''"
    by (simp add: ender_env_def example_env_def base_name_def)
  have own: "''_filename'' \<notin> fst ` set ender_json"
    by (simp add: ender_json_def)
  have parsed: "parse_def_json ender_env ?p = Inr ?d"
    by (simp add: parse_def_json_def doc)
  have tree: "extract_settings_tree ?d = Inr [(''layer_height'', ?base)]"
    by (simp add: ender_json_def new_result_def dict_update_def extract_settings_tree_def
          extract_node_def setting_info_def props_def)
  have base: "map_of [(''layer_height'', ?base)] ''layer_height'' = Some ?base" by simp
  have ovs: "map_of ?d ''overrides'' = Some (JDict ?ovs)"
    by (simp add: ender_json_def new_result_def dict_update_def)
  have dist: "distinct (map fst ?ovs)" by simp
  have dicts: "\<forall>v \<in> snd ` set ?ovs. \<exists>d. v = JDict d" by simp
  have ov: "map_of ?ovs ''layer_height'' = Some (JDict [(''default_value'', JFloat 0.16)])"
    by simp
  have dist_ov: "distinct (map fst [(''default_value'', JFloat 0.16)])" by simp
  from walker_merges_settings_and_overrides
         [OF doc own parsed tree base ovs dist dicts ov dist_ov]
  obtain res entry where
    r: "extract_settings_from_def ?d = Inr res" and
    e: "map_of res ''layer_height'' = Some entry" and
    v: "entry = AList.update ''_source'' (JStr (path_name ender_env ?p))
                  (dict_update ?base [(''default_value'', JFloat 0.16)])"
    by blast
  from v have "entry = [(''default_value'', JFloat 0.16), (''type'', JStr ''float''),
                  (''unit'', JStr ''mm''), (''_source'', JStr ''creality_ender3pro.def.json'')]"
    by (simp add: dict_update_def name)
  with r e parsed doc name show ?thesis by blast
qed

text \<open>
  The reader lets the keys of the document overwrite its own annotations: a document that
  carries a top-level \<open>_filename\<close> has its entries stamped with that value, not with the
  name of its file.
\<close>

theorem walker_source_counterexample:
  "link_file (link_of spoof_env (JStr ''own'')) = ''defs/own.def.json'' \<and>
   json_files spoof_env ''defs/own.def.json'' = JsonFile spoof_json \<and>
   path_name spoof_env ''defs/own.def.json'' = ''own.def.json'' \<and>
   layer_settings spoof_env (link_of spoof_env (JStr ''own'')) =
     Inr [(''layer_height'',
           [(''default_value'', JFloat 0.16), (''type'', JStr ''float''),
            (''unit'', JStr ''mm''), (''_source'', JStr ''evil.json'')])]"
  by (simp add: layer_settings_def link_of_def spoof_env_def example_env_def
        example_def_path_def base_name_def parse_def_json_def new_result_def dict_update_def
        spoof_json_def ender_json_def extract_settings_from_def_def extract_settings_tree_def
        extract_node_def setting_info_def props_def)

text \<open>
  Claim C8, where the code fails it. The flat parser reads with \<open>ConfigParser.read\<close>,
  which ignores a file that cannot be opened: for a file that exists and is unreadable
  the result holds the path annotation and no \<open>_error\<close> marker. (For an absent or
  malformed file, and in the JSON parser for an unreadable one too, the marker is set:
  \<open>reader_cfg_marks_failure\<close>, \<open>reader_json_marks_failure\<close>.)
\<close>

theorem unopenable_cfg_has_no_marker:
  "cfg_files locked_env ''machine_instances/Ender.global.cfg'' \<noteq> NoCfg \<and>
   parse_cfg_file locked_env ''machine_instances/Ender.global.cfg'' =
     [(''_filepath'', JStr ''machine_instances/Ender.global.cfg''),
      (''_filename'', JStr ''Ender.global.cfg'')] \<and>
   map_of (parse_cfg_file locked_env ''machine_instances/Ender.global.cfg'') ''_error'' = None"
  by (simp add: locked_env_def example_env_def parse_cfg_file_def new_result_def base_name_def)




text \<open>
  Claim C10, amended. For a setting of the quick-reference list that the \<open>values\<close> of the
  definition-changes document hold, the reported value is that override itself, whatever
  its truth value, with source \<open>your_customizations\<close>. Only for a setting that those
  \<open>values\<close> do not hold and that the effective map holds is the reported value chosen by
  \<open>effective_value or value or default_value\<close>; there, when \<open>effective_value\<close> is falsy or
  absent, the reported value is \<open>value or default_value\<close>.
\<close>

theorem key_settings_report:
  assumes dc: "get_dict (definition_changes m) ''values'' = Inr def_changes"
    and ks: "extract_key_settings (Some m) = Inr key_settings"
    and s: "setting \<in> set IMPORTANT_SETTINGS"
  shows "(\<forall>v. map_of def_changes setting = Some v \<longrightarrow>
            map_of key_settings setting =
              Some [(''value'', v), (''source'', JStr ''your_customizations'')]) \<and>
         (\<forall>info. map_of def_changes setting = None \<longrightarrow>
            map_of (effective_settings m) setting = Some info \<longrightarrow>
            (\<exists>src. map_of key_settings setting =
               Some [(''value'', py_or (py_get info ''effective_value'')
                                  (py_or (py_get info ''value'') (py_get info ''default_value''))),
                     (''source'', src)]) \<and>
            (\<not> truthy (py_get info ''effective_value'') \<longrightarrow>
               field key_settings setting ''value'' =
                 Some (py_or (py_get info ''value'') (py_get info ''default_value''))))"
proof -
  from ks dc have l: "key_settings_loop (effective_settings m) def_changes IMPORTANT_SETTINGS [] =
      Inr key_settings"
    by (simp add: extract_key_settings_def)
  have 1: "map_of key_settings setting =
             Some [(''value'', v), (''source'', JStr ''your_customizations'')]"
    if "map_of def_changes setting = Some v" for v
    by (rule key_settings_loop_customized [OF l important_distinct s that])
  have 2: "(\<exists>src. map_of key_settings setting =
               Some [(''value'', py_or (py_get info ''effective_value'')
                                  (py_or (py_get info ''value'') (py_get info ''default_value''))),
                     (''source'', src)]) \<and>
           (\<not> truthy (py_get info ''effective_value'') \<longrightarrow>
               field key_settings setting ''value'' =
                 Some (py_or (py_get info ''value'') (py_get info ''default_value'')))"
    if n: "map_of def_changes setting = None" and i: "map_of (effective_settings m) setting = Some info"
    for info
  proof -
    from key_settings_loop_inherited [OF l important_distinct s n i] obtain entry where
      r: "effective_report info = Inr entry" and e: "map_of key_settings setting = Some entry"
      by blast
    from r obtain src where
      "entry = [(''value'', py_or (py_get info ''effective_value'')
                                  (py_or (py_get info ''value'') (py_get info ''default_value''))),
                (''source'', src)]"
      by (auto simp: effective_report_def split: sum.splits)
    with e show ?thesis by (auto simp: field_def py_or_def)
  qed
  from 1 2 show ?thesis by blast
qed

theorem key_settings_report_witness:
  "extract_key_settings (Some (printer_result ''0.12'')) =
     Inr [(''layer_height'', [(''value'', JStr ''0.12''), (''source'', JStr ''your_customizations'')]),
          (''machine_heated_bed'', [(''value'', JBool True), (''source'', JStr ''creality_base'')])] \<and>
   field [(''layer_height'', [(''value'', JStr ''0.12''), (''source'', JStr ''your_customizations'')]),
          (''machine_heated_bed'', [(''value'', JBool True), (''source'', JStr ''creality_base'')])]
     ''machine_heated_bed'' ''value'' = Some (JBool True)"
proof -
  let ?ks = "[(''layer_height'', [(''value'', JStr ''0.12''), (''source'', JStr ''your_customizations'')]),
          (''machine_heated_bed'', [(''value'', JBool True), (''source'', JStr ''creality_base'')])]"
  let ?info = "[(''_sources'', JList [JStr ''creality_base'']),
        (''default_value'', JBool True),
        (''_source'', JStr ''creality_base.def.json'')]"
  have dc: "get_dict (definition_changes (printer_result ''0.12'')) ''values'' =
      Inr [(''layer_height'', JStr ''0.12'')]"
    by (simp add: printer_result_def printer_changes_def get_dict_def)
  have s: "''machine_heated_bed'' \<in> set IMPORTANT_SETTINGS"
    by (simp add: IMPORTANT_SETTINGS_def)
  have n: "map_of [(''layer_height'', JStr ''0.12'')] ''machine_heated_bed'' = None" by simp
  have i: "map_of (effective_settings (printer_result ''0.12'')) ''machine_heated_bed'' = Some ?info"
    by (simp add: printer_result_def printer_effective_def)
  have f: "\<not> truthy (py_get ?info ''effective_value'')"
    by (simp add: py_get_def)
  from key_settings_report [OF dc printer_key_settings s] n i f
  have "field ?ks ''machine_heated_bed'' ''value'' =
          Some (py_or (py_get ?info ''value'') (py_get ?info ''default_value''))"
    by blast
  then have "field ?ks ''machine_heated_bed'' ''value'' = Some (JBool True)"
    by (simp add: py_or_def py_get_def)
  with printer_key_settings [of "''0.12''"] show ?thesis by simp
qed

text \<open>
  The merger sets \<open>effective_value\<close> only for the keys of those \<open>values\<close>. With the
  override of \<open>layer_height\<close> left empty in the definition-changes file, the merged
  \<open>effective_value\<close> is the empty string, which is falsy, and the quick reference reports
  that empty string, not the inherited default 0.16.
\<close>

theorem falsy_override_counterexample:
  "machine_field (extract_machine (printer_env []) ''Ender'') ''layer_height'' ''effective_value'' =
     Some (Inr (Some (JStr []))) \<and>
   \<not> truthy (JStr []) \<and>
   machine_field (extract_machine (printer_env []) ''Ender'') ''layer_height'' ''default_value'' =
     Some (Inr (Some (JFloat 0.16))) \<and>
   extract_all_key_settings (printer_env []) ''Ender'' =
     Some (Inr [(''layer_height'', [(''value'', JStr []), (''source'', JStr ''your_customizations'')]),
                (''machine_heated_bed'', [(''value'', JBool True), (''source'', JStr ''creality_base'')])])"
  using printer_key_settings [of "[]"]
  by (simp add: printer_machine machine_field_def field_def printer_effective_def
        extract_all_key_settings_def printer_result_def)

end
